theory Spec2Isabelle
  imports Main
begin

section \<open>Connect Four server: data model\<close>

text \<open>
  The server keeps one global \<^verbatim>\<open>game\<close> object and mutates it from the handlers of a
  WebSocket server. The embedding passes that object explicitly: every handler takes the
  game and returns the new game with the list of messages it hands to the transport.

  The two identities are the string constants \<^verbatim>\<open>PLAYER1 = "Player1"\<close> and
  \<^verbatim>\<open>PLAYER2 = "Player2"\<close>; a board cell holds \<^verbatim>\<open>null\<close> or one of them.
\<close>

datatype player = PLAYER1 | PLAYER2

type_synonym cell = "player option"

type_synonym board = "cell list list"

datatype status = WAITING | ONGOING | WIN | DRAW | ABANDONED

text \<open>A participant is the object \<^verbatim>\<open>{ id: playerId, ws: ws }\<close>; a socket is named by a number.\<close>

record participant =
  id' :: player
  ws :: nat

record game =
  board :: board
  currentPlayer :: player
  status :: status
  players :: "participant list"
  winner :: "player option"

definition MAX_PLAYERS :: nat where
  "MAX_PLAYERS = 2"

section \<open>Board engine\<close>

definition createEmptyBoard :: board where
  "createEmptyBoard = replicate 6 (replicate 7 None)"

text \<open>
  \<^verbatim>\<open>game.board[r][c]\<close>: the value read is \<^verbatim>\<open>undefined\<close> (here \<open>None\<close>) when \<open>c\<close> is
  not an index of the row, and the cell (\<open>Some\<close> of it) otherwise. The source only reads
  rows 0 to 5, which every board built by \<open>createEmptyBoard\<close> has.
\<close>

definition cellAt :: "board \<Rightarrow> nat \<Rightarrow> int \<Rightarrow> cell option" where
  "cellAt b r c = (if 0 \<le> c \<and> nat c < length (b ! r) then Some (b ! r ! nat c) else None)"

definition isValidMove :: "game \<Rightarrow> int \<Rightarrow> bool" where
  "isValidMove g column =
     (if column < 0 \<or> column \<ge> 7 then False
      else cellAt (board g) 0 column = Some None)"

text \<open>
  \<^verbatim>\<open>for (let row = 5; row >= 0; row--)\<close> of \<open>makeMove\<close>, as recursion over the rows still to
  visit; the first row whose cell is \<^verbatim>\<open>null\<close> receives the piece and the loop returns.
\<close>

fun makeMove_rows :: "board \<Rightarrow> nat list \<Rightarrow> int \<Rightarrow> player \<Rightarrow> board \<times> bool" where
  "makeMove_rows b [] column player = (b, False)"
| "makeMove_rows b (row # rows) column player =
     (if cellAt b row column = Some None
      then (b[row := (b ! row)[nat column := Some player]], True)
      else makeMove_rows b rows column player)"

definition makeMove :: "game \<Rightarrow> int \<Rightarrow> player \<Rightarrow> game \<times> bool" where
  "makeMove g column player =
     (case makeMove_rows (board g) [5, 4, 3, 2, 1, 0] column player of
        (b', ok) \<Rightarrow> (g\<lparr>board := b'\<rparr>, ok))"

text \<open>The shape of every board the server builds: 6 rows of 7 cells.\<close>

definition wf_board :: "board \<Rightarrow> bool" where
  "wf_board b = (length b = 6 \<and> list_all (\<lambda>row. length row = 7) b)"

text \<open>Gravity: a piece above the bottom row rests on an occupied cell.\<close>

definition gravity :: "board \<Rightarrow> bool" where
  "gravity b = (\<forall>r c. r < 5 \<and> c < 7 \<and> b ! r ! c \<noteq> None \<longrightarrow> b ! Suc r ! c \<noteq> None)"

text \<open>
  \<open>checkWinCondition\<close>. The four probing directions, in the order of the source's array:
  horizontal, vertical, diagonal down-right, diagonal down-left.
\<close>

definition directions :: "(int \<times> int) list" where
  "directions = [(0, 1), (1, 0), (1, 1), (1, -1)]"

definition ROWS :: int where
  "ROWS = 6"

definition COLS :: int where
  "COLS = 7"

text \<open>
  The innermost loop \<^verbatim>\<open>for (let i = 1; i < 4; i++)\<close>, over the values of \<open>i\<close> still to
  come: it counts the cells of \<open>player\<close> met from \<open>(r, c)\<close> in one direction, and
  breaks at the first cell that is off the board or not \<open>player\<close>'s.
\<close>

fun countRun :: "board \<Rightarrow> player \<Rightarrow> int \<Rightarrow> int \<Rightarrow> int \<times> int \<Rightarrow> int list \<Rightarrow> nat \<Rightarrow> nat" where
  "countRun b player r c (dr, dc) [] count = count"
| "countRun b player r c (dr, dc) (i # is) count =
     (let nr = r + dr * i; nc = c + dc * i in
      if nr \<ge> 0 \<and> nr < ROWS \<and> nc \<ge> 0 \<and> nc < COLS \<and> cellAt b (nat nr) nc = Some (Some player)
      then countRun b player r c (dr, dc) is (count + 1)
      else count)"

text \<open>The loop over the directions: true when it reaches \<^verbatim>\<open>count >= 4\<close>, where the source returns.\<close>

fun checkDirections :: "board \<Rightarrow> player \<Rightarrow> int \<Rightarrow> int \<Rightarrow> (int \<times> int) list \<Rightarrow> bool" where
  "checkDirections b player r c [] = False"
| "checkDirections b player r c (d # ds) =
     (if countRun b player r c d [1, 2, 3] 1 \<ge> 4 then True
      else checkDirections b player r c ds)"

text \<open>
  The loops over \<open>c\<close> and over \<open>r\<close>. The result is the identity for which the source sets
  \<^verbatim>\<open>game.winner\<close> and returns, or \<open>None\<close> when both loops run to their end.
\<close>

fun scanCols :: "board \<Rightarrow> int \<Rightarrow> int list \<Rightarrow> player option" where
  "scanCols b r [] = None"
| "scanCols b r (c # cs) =
     (case cellAt b (nat r) c of
        Some (Some player) \<Rightarrow>
          if checkDirections b player r c directions then Some player else scanCols b r cs
      | _ \<Rightarrow> scanCols b r cs)"

fun scanRows :: "board \<Rightarrow> int list \<Rightarrow> player option" where
  "scanRows b [] = None"
| "scanRows b (r # rs) =
     (case scanCols b r [0, 1, 2, 3, 4, 5, 6] of
        Some player \<Rightarrow> Some player
      | None \<Rightarrow> scanRows b rs)"

definition checkWinCondition :: "game \<Rightarrow> game" where
  "checkWinCondition g =
     (case scanRows (board g) [0, 1, 2, 3, 4, 5] of
        Some player \<Rightarrow> g\<lparr>status := WIN, winner := Some player\<rparr>
      | None \<Rightarrow>
          if list_all (\<lambda>row. list_all (\<lambda>cell. cell \<noteq> None) row) (board g)
          then g\<lparr>status := DRAW, winner := None\<rparr>
          else g)"

definition fullGameReset :: "game \<Rightarrow> game" where
  "fullGameReset g =
     g\<lparr>board := createEmptyBoard, currentPlayer := PLAYER1, status := WAITING,
       players := [], winner := None\<rparr>"

section \<open>Messages and effects\<close>

text \<open>
  What \<^verbatim>\<open>JSON.parse(message)\<close> gives. \<open>NotJson\<close>: it throws. \<open>JsonNull\<close>: the value
  \<^verbatim>\<open>null\<close>, on which reading \<^verbatim>\<open>data.type\<close> throws a TypeError. \<open>Json d\<close>: any other
  value, with the four properties the handler reads. A property is \<open>None\<close> when it is
  absent or is not a value the handler can match (\<^verbatim>\<open>data.type\<close>, \<^verbatim>\<open>data.text\<close>: not a
  string; \<^verbatim>\<open>data.player\<close>: not one of the two identities). The column is an integer, as
  the wire format of a move declares it. The chat text is a JavaScript string: the list
  of its UTF-16 code units.
\<close>

type_synonym jsstring = "nat list"

record data =
  data_type :: "string option"
  data_player :: "player option"
  data_column :: int
  data_text :: "jsstring option"

datatype payload = NotJson | JsonNull | Json data

definition MOVE :: string where
  "MOVE = ''move''"

definition RESET_GAME :: string where
  "RESET_GAME = ''reset-game''"

definition CHAT :: string where
  "CHAT = ''chat''"

text \<open>Outbound messages, named after their \<^verbatim>\<open>type\<close> field.\<close>

datatype outmsg =
    GAME_FULL
  | PLAYER_ASSIGNMENT player board player status
  | UPDATE board player status "player option"
  | GAME_OVER board player status "player option"
  | Error string
  | CHAT_MESSAGE player jsstring

text \<open>
  \<open>Send\<close> is one \<^verbatim>\<open>ws.send\<close> on a socket. \<open>Broadcast\<close> is one run of the \<^verbatim>\<open>forEach\<close> of
  \<open>broadcastGameState\<close> or \<open>broadcastChatMessage\<close>: the message and the sockets of
  \<^verbatim>\<open>game.players\<close> it is offered to, in order. Each of those sends happens when the socket's
  \<^verbatim>\<open>readyState\<close> is open and is caught when it throws; both belong to the transport.
\<close>

datatype effect = Send nat outmsg | Broadcast outmsg "nat list"

datatype error = TypeError

definition broadcastGameState :: "game \<Rightarrow> effect list" where
  "broadcastGameState g =
     [Broadcast
        (if status g = ONGOING \<or> status g = WAITING
         then UPDATE (board g) (currentPlayer g) (status g) (winner g)
         else GAME_OVER (board g) (currentPlayer g) (status g) (winner g))
        (map ws (players g))]"

definition broadcastChatMessage :: "game \<Rightarrow> player \<Rightarrow> jsstring \<Rightarrow> effect list" where
  "broadcastChatMessage g senderId txt = [Broadcast (CHAT_MESSAGE senderId txt) (map ws (players g))]"

definition playerInitiatedReset :: "game \<Rightarrow> game \<times> effect list" where
  "playerInitiatedReset g =
     (let g1 = g\<lparr>board := createEmptyBoard, currentPlayer := PLAYER1, winner := None\<rparr>;
          g2 = (if length (players g1) = MAX_PLAYERS then g1\<lparr>status := ONGOING\<rparr>
                else g1\<lparr>status := WAITING\<rparr>)
      in (g2, broadcastGameState g2))"

text \<open>
  \<^verbatim>\<open>String.prototype.trim\<close> removes, at both ends, the code units that ECMAScript calls
  white space or line terminators: TAB, LF, VT, FF, CR, SPACE, NO-BREAK SPACE, U+1680,
  U+2000 to U+200A, U+2028, U+2029, U+202F, U+205F, U+3000 and U+FEFF.
\<close>

definition isSpace :: "nat \<Rightarrow> bool" where
  "isSpace u =
     (u \<in> set [0x09, 0x0A, 0x0B, 0x0C, 0x0D, 0x20, 0xA0, 0x1680, 0x2028, 0x2029, 0x202F,
                0x205F, 0x3000, 0xFEFF] \<or>
      (0x2000 \<le> u \<and> u \<le> 0x200A))"

definition trim :: "jsstring \<Rightarrow> jsstring" where
  "trim s = rev (dropWhile isSpace (rev (dropWhile isSpace s)))"

section \<open>Event handlers\<close>

text \<open>
  The handler of \<^verbatim>\<open>wss.on('connection')\<close> up to the point where it registers the
  socket's own handlers. The second component is \<^verbatim>\<open>ws.playerId\<close>: \<open>None\<close> when the
  handler returned early, and then the socket has no \<^verbatim>\<open>message\<close> or \<^verbatim>\<open>close\<close> handler.
\<close>

definition onConnection :: "nat \<Rightarrow> game \<Rightarrow> game \<times> player option \<times> effect list" where
  "onConnection sock g =
     (if length (players g) \<ge> MAX_PLAYERS \<and> status g \<noteq> WAITING
      then (g, None, [Send sock GAME_FULL])
      else
        let playerId = (if length (players g) = 0 then PLAYER1 else PLAYER2);
            g1 = g\<lparr>players := players g @ [\<lparr>id' = playerId, ws = sock\<rparr>]\<rparr>;
            hello = Send sock (PLAYER_ASSIGNMENT playerId (board g1) (currentPlayer g1) (status g1))
        in if length (players g1) = MAX_PLAYERS \<and> status g1 = WAITING
           then (let g2 = g1\<lparr>status := ONGOING\<rparr>
                 in (g2, Some playerId, hello # broadcastGameState g2))
           else if length (players g1) < MAX_PLAYERS
           then (g1, Some playerId, hello # broadcastGameState g1)
           else (g1, Some playerId, [hello]))"

text \<open>
  The handler of \<^verbatim>\<open>ws.on('message')\<close> of the socket \<open>sock\<close>, whose \<^verbatim>\<open>ws.playerId\<close> is
  \<open>playerId\<close>. \<open>Inl TypeError\<close>: the handler throws.
\<close>

definition onMessage :: "nat \<Rightarrow> player \<Rightarrow> payload \<Rightarrow> game \<Rightarrow> error + game \<times> effect list" where
  "onMessage sock playerId message g =
     (case message of
        NotJson \<Rightarrow> Inr (g, [Send sock (Error ''Invalid message format.'')])
      | JsonNull \<Rightarrow> Inl TypeError
      | Json d \<Rightarrow>
          Inr (if data_type d = Some MOVE \<and> data_player d = Some playerId \<and>
                  currentPlayer g = playerId \<and> status g = ONGOING
               then
                 (let column = data_column d in
                  if isValidMove g column
                  then
                    (let g1 = fst (makeMove g column playerId);
                         g2 = checkWinCondition g1;
                         g3 = (if status g2 = ONGOING
                               then g2\<lparr>currentPlayer :=
                                         (if currentPlayer g2 = PLAYER1 then PLAYER2 else PLAYER1)\<rparr>
                               else g2)
                     in (g3, broadcastGameState g3))
                  else (g, [Send sock (Error ''Invalid move.'')]))
               else if data_type d = Some RESET_GAME
               then
                 (if status g = WIN \<or> status g = DRAW \<or> status g = ABANDONED
                  then playerInitiatedReset g
                  else (g, [Send sock (Error ''Game can only be reset when it's over.'')]))
               else if data_type d = Some CHAT
               then
                 (case data_text d of
                    Some txt \<Rightarrow>
                      if txt \<noteq> [] \<and> length (trim txt) > 0 \<and> data_player d = Some playerId
                      then (g, broadcastChatMessage g playerId (trim txt))
                      else (g, [])
                  | None \<Rightarrow> (g, []))
               else (g, [])))"

text \<open>
  The same handler in the earlier copy of the server (\<^verbatim>\<open>src/server.js\<close>), which knows
  moves only: it has no branch for a reset request or for chat. Its other functions are
  those above, with \<open>fullGameReset\<close> under the name \<^verbatim>\<open>resetGame\<close>.
\<close>

definition onMessage_old :: "nat \<Rightarrow> player \<Rightarrow> payload \<Rightarrow> game \<Rightarrow> error + game \<times> effect list" where
  "onMessage_old sock playerId message g =
     (case message of
        NotJson \<Rightarrow> Inr (g, [Send sock (Error ''Invalid message format.'')])
      | JsonNull \<Rightarrow> Inl TypeError
      | Json d \<Rightarrow>
          Inr (if data_type d = Some MOVE \<and> data_player d = Some playerId \<and>
                  currentPlayer g = playerId \<and> status g = ONGOING
               then
                 (let column = data_column d in
                  if isValidMove g column
                  then
                    (let g1 = fst (makeMove g column playerId);
                         g2 = checkWinCondition g1;
                         g3 = (if status g2 = ONGOING
                               then g2\<lparr>currentPlayer :=
                                         (if currentPlayer g2 = PLAYER1 then PLAYER2 else PLAYER1)\<rparr>
                               else g2)
                     in (g3, broadcastGameState g3))
                  else (g, [Send sock (Error ''Invalid move.'')]))
               else (g, [])))"

text \<open>\<^verbatim>\<open>Array.prototype.findIndex\<close>, with \<open>None\<close> for \<^verbatim>\<open>-1\<close>, and \<^verbatim>\<open>splice(i, 1)\<close>.\<close>

fun findIndex :: "('a \<Rightarrow> bool) \<Rightarrow> 'a list \<Rightarrow> nat option" where
  "findIndex P [] = None"
| "findIndex P (x # xs) =
     (if P x then Some 0 else map_option Suc (findIndex P xs))"

definition splice1 :: "'a list \<Rightarrow> nat \<Rightarrow> 'a list" where
  "splice1 xs i = take i xs @ drop (Suc i) xs"

text \<open>\<open>handlePlayerDisconnect\<close>; the argument \<open>None\<close> is an undefined \<^verbatim>\<open>playerId\<close>.\<close>

definition handlePlayerDisconnect :: "player option \<Rightarrow> game \<Rightarrow> game \<times> effect list" where
  "handlePlayerDisconnect playerId g =
     (case playerId of
        None \<Rightarrow> (g, [])
      | Some pid \<Rightarrow>
          (case findIndex (\<lambda>p. id' p = pid) (players g) of
             None \<Rightarrow> (g, [])
           | Some i \<Rightarrow>
               let g1 = g\<lparr>players := splice1 (players g) i\<rparr>;
                   (g2, out) =
                     (if status g1 = ONGOING
                      then
                        (let g' = g1\<lparr>status := ABANDONED\<rparr>;
                             g'' = (if length (players g') = 1
                                    then g'\<lparr>winner := Some (id' (players g' ! 0))\<rparr>
                                    else g'\<lparr>winner := None\<rparr>)
                         in (g'', broadcastGameState g''))
                      else (g1, []))
               in if length (players g2) = 0 \<and> status g2 \<noteq> WAITING
                  then (fullGameReset g2, out)
                  else (g2, out)))"

section \<open>The server as a whole\<close>

text \<open>
  The global state: the game, and for every socket accepted so far (numbered in the
  order of connection) its \<^verbatim>\<open>ws.playerId\<close> while its handlers can still fire: \<open>None\<close> for
  a socket that was turned away (no handler was registered on it) and for a socket whose
  \<^verbatim>\<open>close\<close> event has fired.
\<close>

record server =
  srv_game :: game
  srv_socks :: "player option list"

datatype event = Connection | Message nat payload | Close nat

definition initial_game :: game where
  "initial_game =
     \<lparr>board = createEmptyBoard, currentPlayer = PLAYER1, status = WAITING,
      players = [], winner = None\<rparr>"

definition initial_server :: server where
  "initial_server = \<lparr>srv_game = initial_game, srv_socks = []\<rparr>"

definition step :: "event \<Rightarrow> server \<Rightarrow> error + server \<times> effect list" where
  "step ev s =
     (case ev of
        Connection \<Rightarrow>
          (case onConnection (length (srv_socks s)) (srv_game s) of
             (g', playerId, out) \<Rightarrow>
               Inr (\<lparr>srv_game = g', srv_socks = srv_socks s @ [playerId]\<rparr>, out))
      | Message sock message \<Rightarrow>
          (if sock < length (srv_socks s)
           then (case srv_socks s ! sock of
                   None \<Rightarrow> Inr (s, [])
                 | Some playerId \<Rightarrow>
                     (case onMessage sock playerId message (srv_game s) of
                        Inl e \<Rightarrow> Inl e
                      | Inr (g', out) \<Rightarrow> Inr (s\<lparr>srv_game := g'\<rparr>, out)))
           else Inr (s, []))
      | Close sock \<Rightarrow>
          (if sock < length (srv_socks s)
           then (case srv_socks s ! sock of
                   None \<Rightarrow> Inr (s, [])
                 | Some playerId \<Rightarrow>
                     (case handlePlayerDisconnect (Some playerId) (srv_game s) of
                        (g', out) \<Rightarrow>
                          Inr (\<lparr>srv_game = g', srv_socks = (srv_socks s)[sock := None]\<rparr>, out)))
           else Inr (s, [])))"

text \<open>A run of events stops at the first handler that throws.\<close>

fun run :: "server \<Rightarrow> event list \<Rightarrow> error + server" where
  "run s [] = Inr s"
| "run s (ev # evs) =
     (case step ev s of
        Inl e \<Rightarrow> Inl e
      | Inr (s', out) \<Rightarrow> run s' evs)"

definition reachable :: "server \<Rightarrow> bool" where
  "reachable s = (\<exists>evs. run initial_server evs = Inr s)"

section \<open>Auxiliary definitions\<close>

text \<open>
  The game the move branch of the message handler leaves, once its guard and
  \<open>isValidMove\<close> hold: the piece is dropped, the end of the game is looked for, and the
  turn passes to the other identity when the game goes on.
\<close>

definition afterMove :: "game \<Rightarrow> int \<Rightarrow> player \<Rightarrow> game" where
  "afterMove g column playerId =
     (let g2 = checkWinCondition (fst (makeMove g column playerId)) in
      if status g2 = ONGOING
      then g2\<lparr>currentPlayer := (if currentPlayer g2 = PLAYER1 then PLAYER2 else PLAYER1)\<rparr>
      else g2)"

text \<open>
  The invariant of the session that the reachable states are shown to satisfy: at most
  two participants, never two of them while WAITING, and exactly two while ONGOING.
\<close>

definition session_inv :: "server \<Rightarrow> bool" where
  "session_inv s =
     (length (players (srv_game s)) \<le> 2 \<and>
      (length (players (srv_game s)) = 2 \<longrightarrow> status (srv_game s) \<noteq> WAITING) \<and>
      (status (srv_game s) = ONGOING \<longrightarrow> length (players (srv_game s)) = 2))"

text \<open>The shape of the board that the reachable states are shown to keep.\<close>

definition board_inv :: "server \<Rightarrow> bool" where
  "board_inv s = (wf_board (board (srv_game s)) \<and> gravity (board (srv_game s)))"

section \<open>Notions of the specification\<close>

text \<open>
  These follow the words of the specification, not the code. A piece of \<open>p\<close> at a cell of
  the 6 by 7 grid; the four lines through a cell (row, column, the two diagonals), each
  as the step from a cell to the next; a contiguous run of \<open>p\<close>'s pieces of length at
  least 4 along one of them; a board with every cell occupied.
\<close>
definition pieceAt :: "board \<Rightarrow> int \<Rightarrow> int \<Rightarrow> player \<Rightarrow> bool" where
  "pieceAt b r c p = (0 \<le> r \<and> r < 6 \<and> 0 \<le> c \<and> c < 7 \<and> b ! nat r ! nat c = Some p)"

definition lineSteps :: "(int \<times> int) set" where
  "lineSteps = {(0, 1), (1, 0), (1, 1), (1, -1)}"

definition hasRun :: "board \<Rightarrow> player \<Rightarrow> bool" where
  "hasRun b p =
     (\<exists>r c dr dc n. (dr, dc) \<in> lineSteps \<and> 4 \<le> n \<and>
        (\<forall>i<n. pieceAt b (r + dr * int i) (c + dc * int i) p))"

definition boardFull :: "board \<Rightarrow> bool" where
  "boardFull b = (\<forall>r<6. \<forall>c<7. b ! r ! c \<noteq> None)"

text \<open>The empty board: 6 rows of 7 cells, every one of them empty.\<close>

definition boardEmpty :: "board \<Rightarrow> bool" where
  "boardEmpty b = (length b = 6 \<and> (\<forall>r<6. length (b ! r) = 7 \<and> (\<forall>c<7. b ! r ! c = None)))"

text \<open>
  What the reachable states are shown to keep for the board: its shape, gravity, and no
  run of four for either identity while the game waits or is being played.
\<close>

definition play_inv :: "server \<Rightarrow> bool" where
  "play_inv s =
     (wf_board (board (srv_game s)) \<and> gravity (board (srv_game s)) \<and>
      (status (srv_game s) = WAITING \<or> status (srv_game s) = ONGOING \<longrightarrow>
         (\<forall>p. \<not> hasRun (board (srv_game s)) p)))"

section \<open>Example boards and sessions\<close>

text \<open>A board whose column 0 is full and whose other columns are empty.\<close>

definition full_column_board :: board where
  "full_column_board =
     [[Some PLAYER2, None, None, None, None, None, None],
      [Some PLAYER1, None, None, None, None, None, None],
      [Some PLAYER2, None, None, None, None, None, None],
      [Some PLAYER1, None, None, None, None, None, None],
      [Some PLAYER2, None, None, None, None, None, None],
      [Some PLAYER1, None, None, None, None, None, None]]"

text \<open>
  A board where \<open>PLAYER1\<close> has a run (column 3), and a full board with no run of four.
\<close>

definition vertical_win_board :: board where
  "vertical_win_board =
     [[None, None, None, None, None, None, None],
      [None, None, None, None, None, None, None],
      [None, None, None, Some PLAYER1, None, None, None],
      [None, None, None, Some PLAYER1, Some PLAYER2, None, None],
      [None, None, None, Some PLAYER1, Some PLAYER2, None, None],
      [None, None, None, Some PLAYER1, Some PLAYER2, None, None]]"

definition draw_board :: board where
  "draw_board =
     [[Some PLAYER1, Some PLAYER1, Some PLAYER2, Some PLAYER2, Some PLAYER1, Some PLAYER1, Some PLAYER2],
      [Some PLAYER2, Some PLAYER2, Some PLAYER1, Some PLAYER1, Some PLAYER2, Some PLAYER2, Some PLAYER1],
      [Some PLAYER1, Some PLAYER1, Some PLAYER2, Some PLAYER2, Some PLAYER1, Some PLAYER1, Some PLAYER2],
      [Some PLAYER2, Some PLAYER2, Some PLAYER1, Some PLAYER1, Some PLAYER2, Some PLAYER2, Some PLAYER1],
      [Some PLAYER1, Some PLAYER1, Some PLAYER2, Some PLAYER2, Some PLAYER1, Some PLAYER1, Some PLAYER2],
      [Some PLAYER2, Some PLAYER2, Some PLAYER1, Some PLAYER1, Some PLAYER2, Some PLAYER2, Some PLAYER1]]"

text \<open>
  Sessions: after the first connection; after the second; after \<open>PLAYER1\<close> has won with
  column 3; and after seat A left a running game and a new socket connected.
\<close>

definition one_player_game :: game where
  "one_player_game = initial_game\<lparr>players := [\<lparr>id' = PLAYER1, ws = 0\<rparr>]\<rparr>"

definition two_player_game :: game where
  "two_player_game =
     initial_game\<lparr>status := ONGOING,
                  players := [\<lparr>id' = PLAYER1, ws = 0\<rparr>, \<lparr>id' = PLAYER2, ws = 1\<rparr>]\<rparr>"

definition won_game :: game where
  "won_game =
     two_player_game\<lparr>board := vertical_win_board, status := WIN, winner := Some PLAYER1\<rparr>"

definition same_seat_game :: game where
  "same_seat_game =
     initial_game\<lparr>status := ABANDONED, winner := Some PLAYER2,
                  players := [\<lparr>id' = PLAYER2, ws = 1\<rparr>, \<lparr>id' = PLAYER2, ws = 2\<rparr>]\<rparr>"

text \<open>Payloads: a move, a reset request, and a message of a kind the server does not know.\<close>

definition move_msg :: "player \<Rightarrow> int \<Rightarrow> payload" where
  "move_msg p c =
     Json \<lparr>data_type = Some MOVE, data_player = Some p, data_column = c, data_text = None\<rparr>"

definition reset_msg :: payload where
  "reset_msg =
     Json \<lparr>data_type = Some RESET_GAME, data_player = None, data_column = 0, data_text = None\<rparr>"

definition ping_msg :: payload where
  "ping_msg =
     Json \<lparr>data_type = Some ''ping'', data_player = None, data_column = 0, data_text = None\<rparr>"

text \<open>
  More sessions: a full column in a running game; \<open>PLAYER1\<close> one move from winning; the
  game after the first move in column 3; seat B gone from a running game; seat A gone
  from a running game.
\<close>

definition full_column_game :: game where
  "full_column_game = two_player_game\<lparr>board := full_column_board\<rparr>"

definition almost_won_game :: game where
  "almost_won_game =
     two_player_game\<lparr>board :=
       [[None, None, None, None, None, None, None],
        [None, None, None, None, None, None, None],
        [None, None, None, None, None, None, None],
        [None, None, None, Some PLAYER1, Some PLAYER2, None, None],
        [None, None, None, Some PLAYER1, Some PLAYER2, None, None],
        [None, None, None, Some PLAYER1, Some PLAYER2, None, None]]\<rparr>"

definition first_move_game :: game where
  "first_move_game =
     two_player_game\<lparr>board :=
       [[None, None, None, None, None, None, None],
        [None, None, None, None, None, None, None],
        [None, None, None, None, None, None, None],
        [None, None, None, None, None, None, None],
        [None, None, None, None, None, None, None],
        [None, None, None, Some PLAYER1, None, None, None]],
       currentPlayer := PLAYER2\<rparr>"

definition abandoned_game :: game where
  "abandoned_game =
     initial_game\<lparr>status := ABANDONED, players := [\<lparr>id' = PLAYER1, ws = 0\<rparr>],
                  winner := Some PLAYER1\<rparr>"

definition seat_b_alone_game :: game where
  "seat_b_alone_game =
     initial_game\<lparr>status := ABANDONED, winner := Some PLAYER2,
                  players := [\<lparr>id' = PLAYER2, ws = 1\<rparr>]\<rparr>"

text \<open>
  A running game with three participants. No run of the server reaches it; it serves to
  exercise the branch of \<open>handlePlayerDisconnect\<close> in which more than one participant
  remains.
\<close>

definition three_seats_game :: game where
  "three_seats_game =
     two_player_game\<lparr>players :=
       [\<lparr>id' = PLAYER1, ws = 0\<rparr>, \<lparr>id' = PLAYER2, ws = 1\<rparr>, \<lparr>id' = PLAYER2, ws = 2\<rparr>]\<rparr>"

text \<open>
  A game played to the last cell. The two participants move in turn, seat A first,
  through \<open>draw_columns\<close> three times over; each pass fills two rows. After 41 moves
  one cell is left, and the 42nd move fills the board with no run of four.
\<close>

fun turns :: "nat \<Rightarrow> int list \<Rightarrow> event list" where
  "turns sock [] = []"
| "turns sock (c # cs) =
     Message sock (move_msg (if sock = 0 then PLAYER1 else PLAYER2) c) # turns (1 - sock) cs"

definition draw_columns :: "int list" where
  "draw_columns = [2, 0, 3, 1, 6, 4, 0, 5, 1, 2, 4, 3, 5, 6]"

definition almost_drawn_game :: game where
  "almost_drawn_game =
     two_player_game\<lparr>board :=
       [[Some PLAYER1, Some PLAYER1, Some PLAYER2, Some PLAYER2, Some PLAYER1, Some PLAYER1, None],
        [Some PLAYER2, Some PLAYER2, Some PLAYER1, Some PLAYER1, Some PLAYER2, Some PLAYER2, Some PLAYER1],
        [Some PLAYER1, Some PLAYER1, Some PLAYER2, Some PLAYER2, Some PLAYER1, Some PLAYER1, Some PLAYER2],
        [Some PLAYER2, Some PLAYER2, Some PLAYER1, Some PLAYER1, Some PLAYER2, Some PLAYER2, Some PLAYER1],
        [Some PLAYER1, Some PLAYER1, Some PLAYER2, Some PLAYER2, Some PLAYER1, Some PLAYER1, Some PLAYER2],
        [Some PLAYER2, Some PLAYER2, Some PLAYER1, Some PLAYER1, Some PLAYER2, Some PLAYER2, Some PLAYER1]],
       currentPlayer := PLAYER2\<rparr>"

section \<open>The board engine: dropping a piece\<close>


text \<open>\<open>createEmptyBoard\<close> builds the empty board.\<close>

lemma createEmptyBoard_cells:
  "createEmptyBoard =
     [[None, None, None, None, None, None, None],
      [None, None, None, None, None, None, None],
      [None, None, None, None, None, None, None],
      [None, None, None, None, None, None, None],
      [None, None, None, None, None, None, None],
      [None, None, None, None, None, None, None]]"
  by (simp add: createEmptyBoard_def numeral_eq_Suc)

lemma createEmptyBoard_empty: "boardEmpty createEmptyBoard"
proof -
  have r: "(r < 6) = (r \<in> set [0, 1, 2, 3, 4, 5])" for r :: nat
    by (simp, presburger)
  have c: "(c < 7) = (c \<in> set [0, 1, 2, 3, 4, 5, 6])" for c :: nat
    by (simp, presburger)
  show ?thesis
    unfolding boardEmpty_def r c by (simp add: createEmptyBoard_cells)
qed

lemma wf_board_rows:
  "wf_board b \<Longrightarrow> r < 6 \<Longrightarrow> length (b ! r) = 7"
  by (simp add: wf_board_def list_all_length)

lemma cellAt_in:
  "wf_board b \<Longrightarrow> r < 6 \<Longrightarrow> 0 \<le> c \<Longrightarrow> c < 7 \<Longrightarrow> cellAt b r c = Some (b ! r ! nat c)"
  by (simp add: cellAt_def wf_board_rows)

lemma makeMove_rows_hit:
  "cellAt b r0 c = Some None \<Longrightarrow> \<forall>r \<in> set pre. cellAt b r c \<noteq> Some None \<Longrightarrow>
   makeMove_rows b (pre @ r0 # post) c p = (b[r0 := (b ! r0)[nat c := Some p]], True)"
  by (induction pre) auto

lemma makeMove_rows_miss:
  "\<forall>r \<in> set rs. cellAt b r c \<noteq> Some None \<Longrightarrow> makeMove_rows b rs c p = (b, False)"
  by (induction rs) auto

lemma desc_split:
  assumes "r0 < 6"
  shows "\<exists>pre post. [5, 4, 3, 2, 1, 0::nat] = pre @ r0 # post \<and> set pre = {r. r0 < r \<and> r < 6}"
proof -
  from assms consider "r0 = 0" | "r0 = 1" | "r0 = 2" | "r0 = 3" | "r0 = 4" | "r0 = 5" by linarith
  then show ?thesis
  proof cases
    case 1 then show ?thesis by (intro exI[of _ "[5,4,3,2,1]"] exI[of _ "[]"]) auto
  next
    case 2 then show ?thesis by (intro exI[of _ "[5,4,3,2]"] exI[of _ "[0]"]) auto
  next
    case 3 then show ?thesis by (intro exI[of _ "[5,4,3]"] exI[of _ "[1,0]"]) auto
  next
    case 4 then show ?thesis by (intro exI[of _ "[5,4]"] exI[of _ "[2,1,0]"]) auto
  next
    case 5 then show ?thesis by (intro exI[of _ "[5]"] exI[of _ "[3,2,1,0]"]) auto
  next
    case 6 then show ?thesis by (intro exI[of _ "[]"] exI[of _ "[4,3,2,1,0]"]) auto
  qed
qed

lemma greatest_below:
  "\<exists>r<n. P r \<Longrightarrow> \<exists>r0<n. P r0 \<and> (\<forall>r. r0 < r \<and> r < n \<longrightarrow> \<not> P r)" for n :: nat
proof (induction n)
  case 0
  then show ?case by simp
next
  case (Suc n)
  show ?case
  proof (cases "P n")
    case True
    then show ?thesis by (intro exI[of _ n]) auto
  next
    case False
    with Suc.prems have "\<exists>r<n. P r" by (metis less_Suc_eq)
    from Suc.IH[OF this] obtain r0 where "r0 < n" "P r0" "\<forall>r. r0 < r \<and> r < n \<longrightarrow> \<not> P r" by blast
    with False show ?thesis by (intro exI[of _ r0]) (auto simp: less_Suc_eq)
  qed
qed

text \<open>The board after a piece of \<open>p\<close> is put at row \<open>r\<close> of column \<open>c\<close>.\<close>

lemma makeMove_lowest:
  assumes wf: "wf_board (board g)" and c: "0 \<le> c" "c < 7"
    and r0: "r0 < 6" "board g ! r0 ! nat c = None"
    and below: "\<forall>r. r0 < r \<and> r < 6 \<longrightarrow> board g ! r ! nat c \<noteq> None"
  shows "makeMove g c p = (g\<lparr>board := (board g)[r0 := (board g ! r0)[nat c := Some p]]\<rparr>, True)"
proof -
  from desc_split[OF r0(1)] obtain pre post where
    sp: "[5, 4, 3, 2, 1, 0::nat] = pre @ r0 # post" and pre: "set pre = {r. r0 < r \<and> r < 6}"
    by blast
  have hit: "cellAt (board g) r0 c = Some None"
    using wf c r0 by (simp add: cellAt_in)
  have "\<forall>r \<in> set pre. cellAt (board g) r c \<noteq> Some None"
    using wf c below pre by (simp add: cellAt_in)
  from makeMove_rows_hit[OF hit this, of post p] show ?thesis
    unfolding makeMove_def sp by simp
qed

lemma makeMove_full:
  assumes wf: "wf_board (board g)" and c: "0 \<le> c" "c < 7"
    and full: "\<forall>r<6. board g ! r ! nat c \<noteq> None"
  shows "makeMove g c p = (g, False)"
proof -
  have "\<forall>r \<in> set [5, 4, 3, 2, 1, 0::nat]. cellAt (board g) r c \<noteq> Some None"
    using wf c full by (simp add: cellAt_in)
  from makeMove_rows_miss[OF this] show ?thesis
    unfolding makeMove_def by simp
qed

lemma gravity_drop:
  assumes wf: "wf_board b" and c: "c < 7" and r0: "r0 < 6"
    and below: "\<forall>r. r0 < r \<and> r < 6 \<longrightarrow> b ! r ! c \<noteq> None"
    and g: "gravity b"
  shows "gravity (b[r0 := (b ! r0)[c := Some p]])"
  unfolding gravity_def
proof (intro allI impI)
  fix r c'
  let ?b = "b[r0 := (b ! r0)[c := Some p]]"
  assume a: "r < 5 \<and> c' < 7 \<and> ?b ! r ! c' \<noteq> None"
  have len: "length b = 6" using wf by (simp add: wf_board_def)
  have rows: "\<And>r. r < 6 \<Longrightarrow> length (b ! r) = 7" using wf by (rule wf_board_rows)
  have get: "\<And>r' c''. r' < 6 \<Longrightarrow> c'' < 7 \<Longrightarrow>
      ?b ! r' ! c'' = (if r' = r0 \<and> c'' = c then Some p else b ! r' ! c'')"
    using len rows r0 c by (auto simp: nth_list_update)
  show "?b ! Suc r ! c' \<noteq> None"
  proof (cases "Suc r = r0 \<and> c' = c")
    case True
    then show ?thesis using get[of "Suc r" c'] a by simp
  next
    case False
    show ?thesis
    proof (cases "r = r0 \<and> c' = c")
      case True
      then have "b ! Suc r ! c' \<noteq> None" using below a by simp
      then show ?thesis using get[of "Suc r" c'] a True by simp
    next
      case False2: False
      then have "b ! r ! c' \<noteq> None" using get[of r c'] a by (simp split: if_splits)
      then have "b ! Suc r ! c' \<noteq> None" using g a by (simp add: gravity_def)
      then show ?thesis using get[of "Suc r" c'] a False by simp
    qed
  qed
qed

lemma gravity_exec:
  "gravity b =
     (\<forall>r \<in> set [0, 1, 2, 3, 4]. \<forall>c \<in> set [0, 1, 2, 3, 4, 5, 6].
        b ! r ! c \<noteq> None \<longrightarrow> b ! Suc r ! c \<noteq> None)"
proof -
  have r: "(r < 5) = (r \<in> set [0, 1, 2, 3, 4])" for r :: nat
    by (simp, presburger)
  have c: "(c < 7) = (c \<in> set [0, 1, 2, 3, 4, 5, 6])" for c :: nat
    by (simp, presburger)
  show ?thesis
    unfolding gravity_def r c by blast
qed

text \<open>
  Claim C5. On a 6 by 7 board and for a column \<open>c\<close> from 0 to 6: when the column has an
  empty cell, \<open>makeMove\<close> puts the identity in the lowest empty row \<open>r0\<close> of the column
  (every row below \<open>r0\<close> is occupied, and so is the cell directly below it when there is
  one), changes no other cell and returns true; when the column has no empty cell it
  leaves the game as it is and returns false; and a board that satisfies gravity still
  does after the call.
\<close>

theorem makeMove_drop:
  assumes wf: "wf_board (board g)" and c: "0 \<le> c" "c < 7"
  shows
    "((\<exists>r<6. board g ! r ! nat c = None) \<longrightarrow>
        (\<exists>r0<6. board g ! r0 ! nat c = None \<and>
                (\<forall>r. r0 < r \<and> r < 6 \<longrightarrow> board g ! r ! nat c \<noteq> None) \<and>
                (Suc r0 < 6 \<longrightarrow> board g ! Suc r0 ! nat c \<noteq> None) \<and>
                makeMove g c p =
                  (g\<lparr>board := (board g)[r0 := (board g ! r0)[nat c := Some p]]\<rparr>, True))) \<and>
     ((\<forall>r<6. board g ! r ! nat c \<noteq> None) \<longrightarrow> makeMove g c p = (g, False)) \<and>
     (gravity (board g) \<longrightarrow> gravity (board (fst (makeMove g c p))))"
proof (intro conjI impI)
  assume "\<exists>r<6. board g ! r ! nat c = None"
  from greatest_below[OF this] obtain r0 where
    r0: "r0 < 6" "board g ! r0 ! nat c = None"
    and below: "\<forall>r. r0 < r \<and> r < 6 \<longrightarrow> board g ! r ! nat c \<noteq> None"
    by blast
  from makeMove_lowest[OF wf c r0 below, of p] r0 below
  show "\<exists>r0<6. board g ! r0 ! nat c = None \<and>
                (\<forall>r. r0 < r \<and> r < 6 \<longrightarrow> board g ! r ! nat c \<noteq> None) \<and>
                (Suc r0 < 6 \<longrightarrow> board g ! Suc r0 ! nat c \<noteq> None) \<and>
                makeMove g c p =
                  (g\<lparr>board := (board g)[r0 := (board g ! r0)[nat c := Some p]]\<rparr>, True)"
    by (intro exI[of _ r0]) simp
next
  assume "\<forall>r<6. board g ! r ! nat c \<noteq> None"
  then show "makeMove g c p = (g, False)" by (rule makeMove_full[OF wf c])
next
  assume grav: "gravity (board g)"
  show "gravity (board (fst (makeMove g c p)))"
  proof (cases "\<exists>r<6. board g ! r ! nat c = None")
    case True
    from greatest_below[OF this] obtain r0 where
      r0: "r0 < 6" "board g ! r0 ! nat c = None"
      and below: "\<forall>r. r0 < r \<and> r < 6 \<longrightarrow> board g ! r ! nat c \<noteq> None"
      by blast
    have "nat c < 7" using c by simp
    from gravity_drop[OF wf this r0(1) below grav, of p] makeMove_lowest[OF wf c r0 below, of p]
    show ?thesis by simp
  next
    case False
    then have "\<forall>r<6. board g ! r ! nat c \<noteq> None" by simp
    from makeMove_full[OF wf c this, of p] grav show ?thesis by simp
  qed
qed


theorem makeMove_drop_witness:
  "wf_board (board initial_game) \<and> (0::int) \<le> 3 \<and> (3::int) < 7 \<and>
   (\<exists>r<6. board initial_game ! r ! nat 3 = None) \<and>
   gravity (board initial_game) \<and>
   makeMove initial_game 3 PLAYER1 =
     (initial_game\<lparr>board := (board initial_game)[5 := (board initial_game ! 5)[nat 3 := Some PLAYER1]]\<rparr>, True) \<and>
   gravity (board (fst (makeMove initial_game 3 PLAYER1))) \<and>
   wf_board full_column_board \<and>
   makeMove (initial_game\<lparr>board := full_column_board\<rparr>) 0 PLAYER1 =
     (initial_game\<lparr>board := full_column_board\<rparr>, False)"
proof -
  have wf: "wf_board (board initial_game)"
    by (simp add: initial_game_def createEmptyBoard_def wf_board_def list_all_iff)
  have ex: "\<exists>r<6. board initial_game ! r ! nat 3 = None"
    by (intro exI[of _ 5]) (simp add: initial_game_def createEmptyBoard_def)
  have grav: "gravity (board initial_game)"
    by (simp add: gravity_def initial_game_def createEmptyBoard_def)
  have mm: "makeMove initial_game 3 PLAYER1 =
     (initial_game\<lparr>board := (board initial_game)[5 := (board initial_game ! 5)[nat 3 := Some PLAYER1]]\<rparr>, True)"
    by (simp add: makeMove_def cellAt_def initial_game_def createEmptyBoard_def)
  from makeMove_drop[OF wf, of 3 PLAYER1] grav
  have g': "gravity (board (fst (makeMove initial_game 3 PLAYER1)))" by simp
  let ?g = "initial_game\<lparr>board := full_column_board\<rparr>"
  have wf2: "wf_board (board ?g)"
    by (simp add: full_column_board_def wf_board_def)
  have full: "\<forall>r<6. board ?g ! r ! nat 0 \<noteq> None"
  proof (intro allI impI)
    fix r :: nat
    assume "r < 6"
    then consider "r = 0" | "r = 1" | "r = 2" | "r = 3" | "r = 4" | "r = 5" by linarith
    then show "board ?g ! r ! nat 0 \<noteq> None"
      by cases (simp_all add: full_column_board_def)
  qed
  from makeMove_drop[OF wf2, of 0 PLAYER1] full
  have "makeMove ?g 0 PLAYER1 = (?g, False)" by simp
  with wf ex grav mm g' wf2 show ?thesis by simp
qed

section \<open>The board engine: detecting the end of the game\<close>

lemma cellAt_piece:
  assumes "wf_board b"
  shows "(0 \<le> r \<and> r < ROWS \<and> 0 \<le> c \<and> c < COLS \<and> cellAt b (nat r) c = Some (Some p)) = pieceAt b r c p"
proof -
  have "length (b ! nat r) = 7" if "0 \<le> r" "r < 6"
    using that assms by (simp add: wf_board_def list_all_length)
  then show ?thesis
    by (auto simp: pieceAt_def cellAt_def ROWS_def COLS_def)
qed

lemma countRun_step:
  assumes "wf_board b"
  shows "countRun b p r c (dr, dc) (i # is) count =
         (if pieceAt b (r + dr * i) (c + dc * i) p
          then countRun b p r c (dr, dc) is (count + 1) else count)"
proof -
  have "countRun b p r c (dr, dc) (i # is) count =
         (if (0 \<le> r + dr * i \<and> r + dr * i < ROWS \<and> 0 \<le> c + dc * i \<and> c + dc * i < COLS \<and>
              cellAt b (nat (r + dr * i)) (c + dc * i) = Some (Some p))
          then countRun b p r c (dr, dc) is (count + 1) else count)"
    by (simp only: countRun.simps Let_def)
  then show ?thesis
    by (simp only: cellAt_piece[OF assms])
qed

lemma countRun_four:
  assumes "wf_board b"
  shows "(countRun b p r c (dr, dc) [1, 2, 3] 1 \<ge> 4) =
         (pieceAt b (r + dr * 1) (c + dc * 1) p \<and> pieceAt b (r + dr * 2) (c + dc * 2) p \<and>
          pieceAt b (r + dr * 3) (c + dc * 3) p)"
  by (simp only: countRun_step[OF assms] countRun.simps(1)) simp

lemma checkDirections_iff:
  "checkDirections b p r c ds = (\<exists>d \<in> set ds. countRun b p r c d [1, 2, 3] 1 \<ge> 4)"
  by (induction ds) (simp_all del: countRun.simps)

lemma scanCols_Some:
  "scanCols b r cs = Some p \<Longrightarrow>
   \<exists>c \<in> set cs. cellAt b (nat r) c = Some (Some p) \<and> checkDirections b p r c directions"
proof (induction cs)
  case Nil
  then show ?case by simp
next
  case (Cons c cs)
  show ?case
  proof (cases "\<exists>q. cellAt b (nat r) c = Some (Some q) \<and> checkDirections b q r c directions")
    case True
    then obtain q where q: "cellAt b (nat r) c = Some (Some q)" "checkDirections b q r c directions"
      by blast
    with Cons.prems have "q = p" by simp
    with q show ?thesis by simp
  next
    case False
    then have "scanCols b r (c # cs) = scanCols b r cs"
      by (simp split: option.splits)
    with Cons show ?thesis by simp
  qed
qed

lemma scanCols_None:
  "scanCols b r cs = None \<Longrightarrow> c \<in> set cs \<Longrightarrow> cellAt b (nat r) c = Some (Some p) \<Longrightarrow>
   \<not> checkDirections b p r c directions"
proof (induction cs)
  case Nil
  then show ?case by simp
next
  case (Cons c' cs)
  show ?case
  proof (cases "c = c'")
    case True
    with Cons.prems(1,3) show ?thesis by (simp split: if_splits)
  next
    case False
    with Cons.prems(2) have in_cs: "c \<in> set cs" by simp
    from Cons.prems(1) have "scanCols b r cs = None"
      by (simp split: option.splits if_splits)
    from Cons.IH[OF this in_cs Cons.prems(3)] show ?thesis .
  qed
qed

lemma scanRows_Some:
  "scanRows b rs = Some p \<Longrightarrow> \<exists>r \<in> set rs. scanCols b r [0, 1, 2, 3, 4, 5, 6] = Some p"
  by (induction rs) (simp_all del: scanCols.simps split: option.splits)

lemma scanRows_None:
  "scanRows b rs = None \<Longrightarrow> r \<in> set rs \<Longrightarrow> scanCols b r [0, 1, 2, 3, 4, 5, 6] = None"
  by (induction rs) (auto simp del: scanCols.simps split: option.splits)

lemma row_index: "0 \<le> r \<Longrightarrow> r < 6 \<Longrightarrow> r \<in> set [0, 1, 2, 3, 4, 5 :: int]"
  by (simp, presburger)

lemma col_index: "0 \<le> c \<Longrightarrow> c < 7 \<Longrightarrow> c \<in> set [0, 1, 2, 3, 4, 5, 6 :: int]"
  by (simp, presburger)

lemma row_range: "r \<in> set [0, 1, 2, 3, 4, 5 :: int] \<Longrightarrow> 0 \<le> r \<and> r < ROWS"
  by (auto simp: ROWS_def)

lemma col_range: "c \<in> set [0, 1, 2, 3, 4, 5, 6 :: int] \<Longrightarrow> 0 \<le> c \<and> c < COLS"
  by (auto simp: COLS_def)

lemma directions_lineSteps: "set directions = lineSteps"
  by (simp add: directions_def lineSteps_def)

lemma four_cells:
  "(\<forall>i<4. P (i::nat)) = (P 0 \<and> P 1 \<and> P 2 \<and> P 3)"
proof
  assume "\<forall>i<4. P i"
  then show "P 0 \<and> P 1 \<and> P 2 \<and> P 3" by simp
next
  assume a: "P 0 \<and> P 1 \<and> P 2 \<and> P 3"
  show "\<forall>i<4. P i"
  proof (intro allI impI)
    fix i :: nat
    assume "i < 4"
    then consider "i = 0" | "i = 1" | "i = 2" | "i = 3" by linarith
    then show "P i" using a by cases simp_all
  qed
qed

text \<open>What the probe from one cell in one direction establishes.\<close>

lemma probe_run:
  assumes wf: "wf_board b"
  shows "(pieceAt b r c p \<and> countRun b p r c (dr, dc) [1, 2, 3] 1 \<ge> 4) =
         (\<forall>i<4. pieceAt b (r + dr * int i) (c + dc * int i) p)"
  using countRun_four[OF wf, of p r c dr dc] by (simp add: four_cells del: countRun.simps)

lemma scan_sound:
  assumes wf: "wf_board b" and scan: "scanRows b [0, 1, 2, 3, 4, 5] = Some p"
  shows "hasRun b p"
proof -
  from scanRows_Some[OF scan] obtain r where
    r: "r \<in> set [0, 1, 2, 3, 4, 5 :: int]" and cols: "scanCols b r [0, 1, 2, 3, 4, 5, 6] = Some p"
    by blast
  from scanCols_Some[OF cols] obtain c where
    c: "c \<in> set [0, 1, 2, 3, 4, 5, 6 :: int]" and cell: "cellAt b (nat r) c = Some (Some p)"
    and dirs: "checkDirections b p r c directions"
    by blast
  from dirs obtain dr dc where d: "(dr, dc) \<in> set directions"
    and cnt: "countRun b p r c (dr, dc) [1, 2, 3] 1 \<ge> 4"
    unfolding checkDirections_iff by auto
  have "pieceAt b r c p"
    using cellAt_piece[OF wf, of r c p] row_range[OF r] col_range[OF c] cell by simp
  with cnt have "\<forall>i<4. pieceAt b (r + dr * int i) (c + dc * int i) p"
    using probe_run[OF wf, of r c p dr dc] by simp
  moreover have "(dr, dc) \<in> lineSteps" using d by (simp only: directions_lineSteps)
  ultimately show ?thesis
    unfolding hasRun_def by (intro exI[of _ r] exI[of _ c] exI[of _ dr] exI[of _ dc] exI[of _ 4]) simp
qed

lemma scan_complete:
  assumes wf: "wf_board b" and run: "hasRun b p"
  shows "scanRows b [0, 1, 2, 3, 4, 5] \<noteq> None"
proof
  assume none: "scanRows b [0, 1, 2, 3, 4, 5] = None"
  from run obtain r c dr dc n where d: "(dr, dc) \<in> lineSteps" and n: "4 \<le> n"
    and cells: "\<forall>i<n. pieceAt b (r + dr * int i) (c + dc * int i) p"
    unfolding hasRun_def by blast
  from cells n have four: "\<forall>i<4. pieceAt b (r + dr * int i) (c + dc * int i) p" by simp
  then have origin: "pieceAt b r c p" and cnt: "countRun b p r c (dr, dc) [1, 2, 3] 1 \<ge> 4"
    using probe_run[OF wf, of r c p dr dc] by simp_all
  from origin have rr: "r \<in> set [0, 1, 2, 3, 4, 5 :: int]" and cc: "c \<in> set [0, 1, 2, 3, 4, 5, 6 :: int]"
    by (simp_all only: pieceAt_def row_index col_index)
  have cell: "cellAt b (nat r) c = Some (Some p)"
    using cellAt_piece[OF wf, of r c p] origin by simp
  from scanRows_None[OF none rr] have "scanCols b r [0, 1, 2, 3, 4, 5, 6] = None" .
  from scanCols_None[OF this cc cell] have "\<not> checkDirections b p r c directions" .
  moreover have "checkDirections b p r c directions"
    unfolding checkDirections_iff using d cnt by (auto simp only: directions_lineSteps)
  ultimately show False by contradiction
qed

lemma every_cell:
  assumes "wf_board b"
  shows "list_all (\<lambda>row. list_all (\<lambda>cell. cell \<noteq> None) row) b = boardFull b"
proof -
  have len: "length b = 6" and rows: "\<And>r. r < 6 \<Longrightarrow> length (b ! r) = 7"
    using assms by (simp_all add: wf_board_def list_all_length)
  show ?thesis
    unfolding boardFull_def list_all_length len using rows by auto
qed


lemma hasRun_exec:
  "hasRun b p =
     (\<exists>r \<in> set [0, 1, 2, 3, 4, 5]. \<exists>c \<in> set [0, 1, 2, 3, 4, 5, 6].
        \<exists>(dr, dc) \<in> set [(0, 1), (1, 0), (1, 1), (1, -1)].
          pieceAt b r c p \<and> pieceAt b (r + dr) (c + dc) p \<and>
          pieceAt b (r + dr * 2) (c + dc * 2) p \<and> pieceAt b (r + dr * 3) (c + dc * 3) p)"
  (is "_ = ?R")
proof
  assume "hasRun b p"
  then obtain r c dr dc n where d: "(dr, dc) \<in> lineSteps" and n: "4 \<le> n"
    and cells: "\<forall>i<n. pieceAt b (r + dr * int i) (c + dc * int i) p"
    unfolding hasRun_def by blast
  from cells n have "\<forall>i<4. pieceAt b (r + dr * int i) (c + dc * int i) p" by simp
  then have four: "pieceAt b r c p \<and> pieceAt b (r + dr) (c + dc) p \<and>
          pieceAt b (r + dr * 2) (c + dc * 2) p \<and> pieceAt b (r + dr * 3) (c + dc * 3) p"
    by (simp add: four_cells)
  then have rr: "r \<in> set [0, 1, 2, 3, 4, 5]" and cc: "c \<in> set [0, 1, 2, 3, 4, 5, 6]"
    by (simp_all only: pieceAt_def row_index col_index)
  from d have dd: "(dr, dc) \<in> set [(0, 1), (1, 0), (1, 1), (1, -1)]"
    by (simp add: lineSteps_def)
  from rr cc dd four show ?R by blast
next
  assume ?R
  then obtain r c dr dc where dd: "(dr, dc) \<in> set [(0, 1), (1, 0), (1, 1), (1, -1)]"
    and four: "pieceAt b r c p \<and> pieceAt b (r + dr) (c + dc) p \<and>
          pieceAt b (r + dr * 2) (c + dc * 2) p \<and> pieceAt b (r + dr * 3) (c + dc * 3) p"
    by blast
  from four have "\<forall>i<4. pieceAt b (r + dr * int i) (c + dc * int i) p"
    by (simp add: four_cells)
  moreover from dd have "(dr, dc) \<in> lineSteps" by (simp add: lineSteps_def)
  ultimately show "hasRun b p"
    unfolding hasRun_def by (intro exI[of _ r] exI[of _ c] exI[of _ dr] exI[of _ dc] exI[of _ 4]) simp
qed

text \<open>
  \<open>checkWinCondition\<close> on any 6 by 7 board. It sets the status to WIN exactly when some
  identity has a contiguous run of at least 4 of its pieces along a row, a column or a
  diagonal, and the winner it records is an identity that has such a run; when \<open>p\<close> is
  the only identity with such a run the result is WIN for \<open>p\<close>. It sets DRAW with no
  winner exactly when every cell is occupied and neither identity has such a run. In
  every other case it returns the game as it was.
\<close>

lemma checkWinCondition_outcome:
  assumes wf: "wf_board (board g)"
  shows
    "((\<exists>p. hasRun (board g) p) \<longrightarrow>
        (\<exists>p. hasRun (board g) p \<and> checkWinCondition g = g\<lparr>status := WIN, winner := Some p\<rparr>)) \<and>
     (hasRun (board g) p \<and> (\<forall>q. q \<noteq> p \<longrightarrow> \<not> hasRun (board g) q) \<longrightarrow>
        checkWinCondition g = g\<lparr>status := WIN, winner := Some p\<rparr>) \<and>
     ((\<forall>q. \<not> hasRun (board g) q) \<and> boardFull (board g) \<longrightarrow>
        checkWinCondition g = g\<lparr>status := DRAW, winner := None\<rparr>) \<and>
     ((\<forall>q. \<not> hasRun (board g) q) \<and> \<not> boardFull (board g) \<longrightarrow> checkWinCondition g = g) \<and>
     (status g = ONGOING \<longrightarrow>
        (status (checkWinCondition g) = WIN) = (\<exists>q. hasRun (board g) q) \<and>
        (status (checkWinCondition g) = WIN \<longrightarrow>
           (\<exists>q. winner (checkWinCondition g) = Some q \<and> hasRun (board g) q)) \<and>
        (status (checkWinCondition g) = DRAW) =
           (boardFull (board g) \<and> (\<forall>q. \<not> hasRun (board g) q)) \<and>
        (status (checkWinCondition g) = ONGOING) =
           (\<not> boardFull (board g) \<and> (\<forall>q. \<not> hasRun (board g) q)))"
proof -
  let ?scan = "scanRows (board g) [0, 1, 2, 3, 4, 5]"
  have won: "\<exists>q. hasRun (board g) q \<and> checkWinCondition g = g\<lparr>status := WIN, winner := Some q\<rparr>"
    if "hasRun (board g) p'" for p'
  proof -
    from scan_complete[OF wf that] obtain q where q: "?scan = Some q" by blast
    have "checkWinCondition g = g\<lparr>status := WIN, winner := Some q\<rparr>"
      unfolding checkWinCondition_def q by simp
    with scan_sound[OF wf q] show ?thesis by blast
  qed
  have none: "?scan = None" if "\<forall>q. \<not> hasRun (board g) q"
  proof (cases ?scan)
    case None
    then show ?thesis .
  next
    case (Some q)
    from scan_sound[OF wf Some] that show ?thesis by blast
  qed
  have draw: "checkWinCondition g = g\<lparr>status := DRAW, winner := None\<rparr>"
    if "\<forall>q. \<not> hasRun (board g) q" "boardFull (board g)"
    unfolding checkWinCondition_def none[OF that(1)] every_cell[OF wf] using that(2) by simp
  have same: "checkWinCondition g = g"
    if "\<forall>q. \<not> hasRun (board g) q" "\<not> boardFull (board g)"
    unfolding checkWinCondition_def none[OF that(1)] every_cell[OF wf] using that(2) by simp
  have c1: "(\<exists>p. hasRun (board g) p) \<longrightarrow>
        (\<exists>p. hasRun (board g) p \<and> checkWinCondition g = g\<lparr>status := WIN, winner := Some p\<rparr>)"
    using won by blast
  have c2: "hasRun (board g) p \<and> (\<forall>q. q \<noteq> p \<longrightarrow> \<not> hasRun (board g) q) \<longrightarrow>
        checkWinCondition g = g\<lparr>status := WIN, winner := Some p\<rparr>"
  proof
    assume a: "hasRun (board g) p \<and> (\<forall>q. q \<noteq> p \<longrightarrow> \<not> hasRun (board g) q)"
    with won obtain q where "hasRun (board g) q"
      "checkWinCondition g = g\<lparr>status := WIN, winner := Some q\<rparr>" by blast
    with a show "checkWinCondition g = g\<lparr>status := WIN, winner := Some p\<rparr>" by metis
  qed
  have c5: "(status (checkWinCondition g) = WIN) = (\<exists>q. hasRun (board g) q) \<and>
        (status (checkWinCondition g) = WIN \<longrightarrow>
           (\<exists>q. winner (checkWinCondition g) = Some q \<and> hasRun (board g) q)) \<and>
        (status (checkWinCondition g) = DRAW) =
           (boardFull (board g) \<and> (\<forall>q. \<not> hasRun (board g) q)) \<and>
        (status (checkWinCondition g) = ONGOING) =
           (\<not> boardFull (board g) \<and> (\<forall>q. \<not> hasRun (board g) q))"
    if on: "status g = ONGOING"
  proof (cases "\<exists>q. hasRun (board g) q")
    case True
    with won obtain q where "hasRun (board g) q"
      "checkWinCondition g = g\<lparr>status := WIN, winner := Some q\<rparr>" by blast
    with True show ?thesis by auto
  next
    case False
    then have no: "\<forall>q. \<not> hasRun (board g) q" by simp
    show ?thesis
    proof (cases "boardFull (board g)")
      case True
      with draw[OF no True] no show ?thesis by simp
    next
      case nf: False
      with same[OF no nf] no on show ?thesis by simp
    qed
  qed
  from c1 c2 draw same c5 show ?thesis by blast
qed

section \<open>The handlers\<close>

subsection \<open>Moves\<close>

lemma kinds_distinct:
  "MOVE \<noteq> RESET_GAME" "MOVE \<noteq> CHAT" "RESET_GAME \<noteq> CHAT"
  "RESET_GAME \<noteq> MOVE" "CHAT \<noteq> MOVE" "CHAT \<noteq> RESET_GAME"
  by (simp_all add: MOVE_def RESET_GAME_def CHAT_def)

lemma makeMove_frame:
  "currentPlayer (fst (makeMove g c p)) = currentPlayer g \<and>
   status (fst (makeMove g c p)) = status g \<and>
   players (fst (makeMove g c p)) = players g \<and>
   winner (fst (makeMove g c p)) = winner g"
  by (simp add: makeMove_def split: prod.splits)

lemma checkWinCondition_frame:
  "currentPlayer (checkWinCondition g) = currentPlayer g \<and>
   players (checkWinCondition g) = players g \<and>
   board (checkWinCondition g) = board g"
  by (simp add: checkWinCondition_def split: option.splits)

lemma checkWinCondition_status:
  "status (checkWinCondition g) = WIN \<or> status (checkWinCondition g) = DRAW \<or>
   status (checkWinCondition g) = status g"
  by (simp add: checkWinCondition_def split: option.splits)

lemma onMessage_accepted:
  assumes "data_type d = Some MOVE" "data_player d = Some playerId"
    "currentPlayer g = playerId" "status g = ONGOING" "isValidMove g (data_column d)"
  shows "onMessage sock playerId (Json d) g =
           Inr (afterMove g (data_column d) playerId,
                broadcastGameState (afterMove g (data_column d) playerId))"
    and "onMessage_old sock playerId (Json d) g =
           Inr (afterMove g (data_column d) playerId,
                broadcastGameState (afterMove g (data_column d) playerId))"
  using assms by (simp_all add: onMessage_def onMessage_old_def afterMove_def Let_def)

lemma afterMove_turn:
  assumes "currentPlayer g = playerId" "status g = ONGOING"
  shows "(status (afterMove g c playerId) = ONGOING \<longrightarrow>
            currentPlayer (afterMove g c playerId) = (if playerId = PLAYER1 then PLAYER2 else PLAYER1)) \<and>
         (status (afterMove g c playerId) \<noteq> ONGOING \<longrightarrow>
            currentPlayer (afterMove g c playerId) = playerId \<and>
            (status (afterMove g c playerId) = WIN \<or> status (afterMove g c playerId) = DRAW))"
proof -
  let ?g2 = "checkWinCondition (fst (makeMove g c playerId))"
  have cur: "currentPlayer ?g2 = playerId"
    using assms(1) by (simp add: checkWinCondition_frame makeMove_frame)
  have st: "status ?g2 = WIN \<or> status ?g2 = DRAW \<or> status ?g2 = ONGOING"
    using checkWinCondition_status[of "fst (makeMove g c playerId)"] assms(2)
    by (simp add: makeMove_frame)
  show ?thesis
    unfolding afterMove_def Let_def using cur st by auto
qed

text \<open>
  Claim C9. An accepted move is a move message whose \<^verbatim>\<open>player\<close> is the socket's identity,
  sent by the turn-owner while the status is ONGOING, to a column \<open>isValidMove\<close> admits.
  Both copies of the handler then return the same game: when its status is still
  ONGOING the turn-owner is the identity that did not move; when the move ended the game
  (WIN or DRAW) the turn-owner is still the mover.
\<close>

theorem move_turn_alternation:
  assumes "data_type d = Some MOVE" "data_player d = Some playerId"
    "currentPlayer g = playerId" "status g = ONGOING" "isValidMove g (data_column d)"
  shows "\<exists>g' out.
           onMessage sock playerId (Json d) g = Inr (g', out) \<and>
           onMessage_old sock playerId (Json d) g = Inr (g', out) \<and>
           (status g' = ONGOING \<longrightarrow>
              currentPlayer g' = (if playerId = PLAYER1 then PLAYER2 else PLAYER1) \<and>
              currentPlayer g' \<noteq> playerId) \<and>
           (status g' \<noteq> ONGOING \<longrightarrow>
              currentPlayer g' = playerId \<and> (status g' = WIN \<or> status g' = DRAW))"
proof -
  let ?g' = "afterMove g (data_column d) playerId"
  from afterMove_turn[OF assms(3,4), of "data_column d"]
  have "(status ?g' = ONGOING \<longrightarrow>
              currentPlayer ?g' = (if playerId = PLAYER1 then PLAYER2 else PLAYER1) \<and>
              currentPlayer ?g' \<noteq> playerId) \<and>
           (status ?g' \<noteq> ONGOING \<longrightarrow>
              currentPlayer ?g' = playerId \<and> (status ?g' = WIN \<or> status ?g' = DRAW))"
    by (cases playerId) auto
  with onMessage_accepted[OF assms, of sock] show ?thesis by blast
qed


lemma first_move_eval:
  "onMessage 0 PLAYER1 (move_msg PLAYER1 3) two_player_game =
     Inr (first_move_game, broadcastGameState first_move_game)"
  by code_simp

lemma winning_move_eval:
  "onMessage 0 PLAYER1 (move_msg PLAYER1 3) almost_won_game =
     Inr (won_game, broadcastGameState won_game)"
  by code_simp

theorem move_turn_alternation_witness:
  "onMessage 0 PLAYER1 (move_msg PLAYER1 3) two_player_game =
     Inr (first_move_game, broadcastGameState first_move_game) \<and>
   status first_move_game = ONGOING \<and> currentPlayer first_move_game = PLAYER2 \<and>
   onMessage 0 PLAYER1 (move_msg PLAYER1 3) almost_won_game =
     Inr (won_game, broadcastGameState won_game) \<and>
   status won_game = WIN \<and> currentPlayer won_game = PLAYER1"
proof -
  let ?d = "\<lparr>data_type = Some MOVE, data_player = Some PLAYER1, data_column = 3, data_text = None\<rparr>"
  have v1: "isValidMove two_player_game (data_column ?d)"
    by (simp add: isValidMove_def cellAt_def two_player_game_def initial_game_def createEmptyBoard_def)
  have v2: "isValidMove almost_won_game (data_column ?d)"
    by (simp add: isValidMove_def cellAt_def almost_won_game_def two_player_game_def initial_game_def)
  from move_turn_alternation[of ?d PLAYER1 two_player_game 0] v1
  obtain g' out where a: "onMessage 0 PLAYER1 (Json ?d) two_player_game = Inr (g', out)"
    and b: "status g' = ONGOING \<longrightarrow> currentPlayer g' = PLAYER2"
    by (auto simp: two_player_game_def initial_game_def)
  from a first_move_eval have g': "g' = first_move_game" by (simp add: move_msg_def)
  have st1: "status first_move_game = ONGOING"
    by (simp add: first_move_game_def two_player_game_def)
  from b g' st1 have cur1: "currentPlayer first_move_game = PLAYER2" by simp
  from move_turn_alternation[of ?d PLAYER1 almost_won_game 0] v2
  obtain g'' out' where c: "onMessage 0 PLAYER1 (Json ?d) almost_won_game = Inr (g'', out')"
    and d: "status g'' \<noteq> ONGOING \<longrightarrow> currentPlayer g'' = PLAYER1"
    by (auto simp: almost_won_game_def two_player_game_def initial_game_def)
  from c winning_move_eval have g'': "g'' = won_game" by (simp add: move_msg_def)
  have st2: "status won_game = WIN" by (simp add: won_game_def)
  from d g'' st2 have cur2: "currentPlayer won_game = PLAYER1" by simp
  from first_move_eval winning_move_eval st1 cur1 st2 cur2 show ?thesis by simp
qed

subsection \<open>Reset requests\<close>

lemma terminal_cases:
  "(st = WIN \<or> st = DRAW \<or> st = ABANDONED) = (st \<noteq> WAITING \<and> st \<noteq> ONGOING)"
  by (cases st) simp_all

text \<open>
  Claim C6. A reset request is accepted exactly when the status is WIN, DRAW or
  ABANDONED: then the board is rebuilt empty, the winner is cleared, the turn-owner is
  seat A, the status is ONGOING when 2 participants are in the list and WAITING
  otherwise, and the new state is broadcast. In the two other statuses the sender gets an
  error and the game is unchanged.
\<close>

theorem reset_request:
  assumes "data_type d = Some RESET_GAME"
  shows
    "(status g = WIN \<or> status g = DRAW \<or> status g = ABANDONED \<longrightarrow>
        (\<exists>g'. onMessage sock playerId (Json d) g = Inr (g', broadcastGameState g') \<and>
              g' = g\<lparr>board := createEmptyBoard, currentPlayer := PLAYER1, winner := None,
                      status := (if length (players g) = 2 then ONGOING else WAITING)\<rparr> \<and>
              boardEmpty (board g') \<and>
              board g' =
                [[None, None, None, None, None, None, None],
                 [None, None, None, None, None, None, None],
                 [None, None, None, None, None, None, None],
                 [None, None, None, None, None, None, None],
                 [None, None, None, None, None, None, None],
                 [None, None, None, None, None, None, None]] \<and>
              winner g' = None \<and> currentPlayer g' = PLAYER1 \<and> players g' = players g \<and>
              status g' = (if length (players g) = 2 then ONGOING else WAITING))) \<and>
     (status g = WAITING \<or> status g = ONGOING \<longrightarrow>
        onMessage sock playerId (Json d) g =
          Inr (g, [Send sock (Error ''Game can only be reset when it's over.'')]))"
proof -
  let ?g' = "g\<lparr>board := createEmptyBoard, currentPlayer := PLAYER1, winner := None,
                      status := (if length (players g) = 2 then ONGOING else WAITING)\<rparr>"
  have acc: "onMessage sock playerId (Json d) g = Inr (?g', broadcastGameState ?g')"
    if "status g = WIN \<or> status g = DRAW \<or> status g = ABANDONED"
    using assms kinds_distinct that
    by (auto simp: onMessage_def playerInitiatedReset_def MAX_PLAYERS_def Let_def)
  have b: "boardEmpty (board ?g')" using createEmptyBoard_empty by simp
  have b': "board ?g' =
                [[None, None, None, None, None, None, None],
                 [None, None, None, None, None, None, None],
                 [None, None, None, None, None, None, None],
                 [None, None, None, None, None, None, None],
                 [None, None, None, None, None, None, None],
                 [None, None, None, None, None, None, None]]"
    using createEmptyBoard_cells by simp
  have f: "winner ?g' = None" "currentPlayer ?g' = PLAYER1" "players ?g' = players g"
    "status ?g' = (if length (players g) = 2 then ONGOING else WAITING)"
    by simp_all
  have rej: "onMessage sock playerId (Json d) g =
          Inr (g, [Send sock (Error ''Game can only be reset when it's over.'')])"
    if "status g = WAITING \<or> status g = ONGOING"
    using assms kinds_distinct that by (auto simp: onMessage_def)
  from acc b b' f rej show ?thesis by blast
qed

theorem reset_request_witness:
  "data_type \<lparr>data_type = Some RESET_GAME, data_player = None, data_column = 0, data_text = None\<rparr>
     = Some RESET_GAME \<and>
   status won_game = WIN \<and> length (players won_game) = 2 \<and>
   onMessage 1 PLAYER2 reset_msg won_game =
     Inr (two_player_game, broadcastGameState two_player_game) \<and>
   board two_player_game =
     [[None, None, None, None, None, None, None],
      [None, None, None, None, None, None, None],
      [None, None, None, None, None, None, None],
      [None, None, None, None, None, None, None],
      [None, None, None, None, None, None, None],
      [None, None, None, None, None, None, None]] \<and>
   boardEmpty (board two_player_game) \<and> board won_game = vertical_win_board \<and>
   status two_player_game = ONGOING \<and>
   currentPlayer two_player_game = PLAYER1 \<and> winner two_player_game = None \<and>
   onMessage 1 PLAYER2 reset_msg two_player_game =
     Inr (two_player_game, [Send 1 (Error ''Game can only be reset when it's over.'')]) \<and>
   status abandoned_game = ABANDONED \<and> length (players abandoned_game) = 1 \<and>
   onMessage 0 PLAYER1 reset_msg abandoned_game =
     Inr (one_player_game, broadcastGameState one_player_game) \<and>
   status one_player_game = WAITING"
proof -
  let ?d = "\<lparr>data_type = Some RESET_GAME, data_player = None, data_column = 0, data_text = None\<rparr>"
  have t: "data_type ?d = Some RESET_GAME" by simp
  have ab: "status abandoned_game = ABANDONED" "length (players abandoned_game) = 1"
    by (simp_all add: abandoned_game_def)
  have eq1: "abandoned_game\<lparr>board := createEmptyBoard, currentPlayer := PLAYER1, winner := None,
                      status := (if length (players abandoned_game) = 2 then ONGOING else WAITING)\<rparr>
            = one_player_game"
    by (simp add: abandoned_game_def one_player_game_def initial_game_def)
  from reset_request[OF t, of abandoned_game 0 PLAYER1] ab eq1
  have r3: "onMessage 0 PLAYER1 reset_msg abandoned_game =
     Inr (one_player_game, broadcastGameState one_player_game)"
    by (auto simp: reset_msg_def)
  have w1: "status one_player_game = WAITING"
    by (simp add: one_player_game_def initial_game_def)
  have w: "status won_game = WIN" "length (players won_game) = 2"
    by (simp_all add: won_game_def two_player_game_def)
  have eq: "won_game\<lparr>board := createEmptyBoard, currentPlayer := PLAYER1, winner := None,
                      status := (if length (players won_game) = 2 then ONGOING else WAITING)\<rparr>
            = two_player_game"
    by (simp add: won_game_def two_player_game_def initial_game_def)
  from reset_request[OF t, of won_game 1 PLAYER2] w
  obtain g' where g': "onMessage 1 PLAYER2 (Json ?d) won_game = Inr (g', broadcastGameState g')"
    "g' = won_game\<lparr>board := createEmptyBoard, currentPlayer := PLAYER1, winner := None,
                      status := (if length (players won_game) = 2 then ONGOING else WAITING)\<rparr>"
    "boardEmpty (board g')"
    "board g' =
     [[None, None, None, None, None, None, None],
      [None, None, None, None, None, None, None],
      [None, None, None, None, None, None, None],
      [None, None, None, None, None, None, None],
      [None, None, None, None, None, None, None],
      [None, None, None, None, None, None, None]]"
    by auto
  from g'(2) eq have gt: "g' = two_player_game" by simp
  from g'(1) gt have r1: "onMessage 1 PLAYER2 reset_msg won_game =
     Inr (two_player_game, broadcastGameState two_player_game)"
    by (simp add: reset_msg_def)
  note bl = g'(3,4)[unfolded gt]
  have bw: "board won_game = vertical_win_board" by (simp add: won_game_def)
  have o: "status two_player_game = ONGOING" by (simp add: two_player_game_def)
  from reset_request[OF t, of two_player_game 1 PLAYER2] o
  have r2: "onMessage 1 PLAYER2 reset_msg two_player_game =
     Inr (two_player_game, [Send 1 (Error ''Game can only be reset when it's over.'')])"
    by (simp add: reset_msg_def)
  have f: "currentPlayer two_player_game = PLAYER1" "winner two_player_game = None"
    by (simp_all add: two_player_game_def initial_game_def)
  from t w r1 r2 o f ab r3 w1 bl bw show ?thesis by simp
qed

subsection \<open>Connections to a full session\<close>

text \<open>
  Claim C8. A connection while 2 participants are present and the status is not WAITING
  gets the single message \<^verbatim>\<open>game-full\<close>, which is not the error message; the participant
  list and the rest of the game are unchanged, nothing is broadcast, and the socket gets
  no identity and no handler.
\<close>

theorem connection_while_full:
  assumes "length (players g) = 2" "status g \<noteq> WAITING"
  shows "onConnection sock g = (g, None, [Send sock GAME_FULL]) \<and>
         length (players (fst (onConnection sock g))) = 2 \<and>
         (\<forall>m. GAME_FULL \<noteq> Error m) \<and>
         (srv_game s = g \<longrightarrow>
            step Connection s =
              Inr (s\<lparr>srv_socks := srv_socks s @ [None]\<rparr>, [Send (length (srv_socks s)) GAME_FULL]))"
  using assms by (simp add: onConnection_def step_def MAX_PLAYERS_def)

theorem connection_while_full_witness:
  "length (players two_player_game) = 2 \<and> status two_player_game \<noteq> WAITING \<and>
   onConnection 2 two_player_game = (two_player_game, None, [Send 2 GAME_FULL]) \<and>
   run initial_server [Connection, Connection] =
     Inr \<lparr>srv_game = two_player_game, srv_socks = [Some PLAYER1, Some PLAYER2]\<rparr> \<and>
   step Connection \<lparr>srv_game = two_player_game, srv_socks = [Some PLAYER1, Some PLAYER2]\<rparr> =
     Inr (\<lparr>srv_game = two_player_game, srv_socks = [Some PLAYER1, Some PLAYER2, None]\<rparr>,
          [Send 2 GAME_FULL])"
proof -
  let ?s = "\<lparr>srv_game = two_player_game, srv_socks = [Some PLAYER1, Some PLAYER2]\<rparr>"
  have a: "length (players two_player_game) = 2" "status two_player_game \<noteq> WAITING"
    by (simp_all add: two_player_game_def)
  have r: "run initial_server [Connection, Connection] = Inr ?s"
    by code_simp
  from connection_while_full[OF a, of 2 ?s] a r show ?thesis by simp
qed

subsection \<open>Disconnects of sockets that hold no seat\<close>

lemma findIndex_None:
  "(findIndex P xs = None) = (\<forall>x \<in> set xs. \<not> P x)"
  by (induction xs) auto

lemma findIndex_Some:
  "findIndex P xs = Some i \<Longrightarrow> i < length xs \<and> P (xs ! i) \<and> (\<forall>j<i. \<not> P (xs ! j))"
proof (induction xs arbitrary: i)
  case Nil
  then show ?case by simp
next
  case (Cons x xs)
  show ?case
  proof (cases "P x")
    case True
    with Cons.prems show ?thesis by simp
  next
    case False
    with Cons.prems obtain k where k: "findIndex P xs = Some k" "i = Suc k" by auto
    from Cons.IH[OF k(1)] False k(2) show ?thesis
      by (auto simp: less_Suc_eq_0_disj)
  qed
qed

text \<open>
  Claim C10. \<open>handlePlayerDisconnect\<close> called with no identity, or with an identity that
  no participant holds, returns the game unchanged and sends nothing; the close of a
  socket that was turned away, or that the server never saw, changes nothing either.
\<close>

theorem disconnect_of_stranger:
  "handlePlayerDisconnect None g = (g, []) \<and>
   (pid \<notin> id' ` set (players g) \<longrightarrow> handlePlayerDisconnect (Some pid) g = (g, [])) \<and>
   (sock < length (srv_socks s) \<and> srv_socks s ! sock = None \<longrightarrow> step (Close sock) s = Inr (s, [])) \<and>
   (length (srv_socks s) \<le> sock \<longrightarrow> step (Close sock) s = Inr (s, []))"
proof -
  have "findIndex (\<lambda>p. id' p = pid) (players g) = None" if "pid \<notin> id' ` set (players g)"
    using that unfolding findIndex_None by auto
  then show ?thesis
    by (simp add: handlePlayerDisconnect_def step_def)
qed

theorem disconnect_of_stranger_witness:
  "PLAYER2 \<notin> id' ` set (players one_player_game) \<and>
   handlePlayerDisconnect (Some PLAYER2) one_player_game = (one_player_game, []) \<and>
   run initial_server [Connection, Connection, Connection] =
     Inr \<lparr>srv_game = two_player_game, srv_socks = [Some PLAYER1, Some PLAYER2, None]\<rparr> \<and>
   step (Close 2) \<lparr>srv_game = two_player_game, srv_socks = [Some PLAYER1, Some PLAYER2, None]\<rparr> =
     Inr (\<lparr>srv_game = two_player_game, srv_socks = [Some PLAYER1, Some PLAYER2, None]\<rparr>, [])"
proof -
  let ?s = "\<lparr>srv_game = two_player_game, srv_socks = [Some PLAYER1, Some PLAYER2, None]\<rparr>"
  have a: "PLAYER2 \<notin> id' ` set (players one_player_game)"
    by (simp add: one_player_game_def)
  have r: "run initial_server [Connection, Connection, Connection] = Inr ?s"
    by code_simp
  have b: "(2::nat) < length (srv_socks ?s) \<and> srv_socks ?s ! 2 = None" by simp
  from disconnect_of_stranger[where pid = PLAYER2 and g = one_player_game and sock = 2 and s = ?s] a b r
  show ?thesis by simp
qed

subsection \<open>Payloads the server cannot read\<close>

text \<open>
  Claim C7, as amended. A payload that does not parse gets one error message sent to its
  sender, and the game is unchanged. A payload that parses and whose type is none of
  \<^verbatim>\<open>move\<close>, \<^verbatim>\<open>reset-game\<close> and \<^verbatim>\<open>chat\<close> is dropped: the game is unchanged and nothing at
  all is sent, to the sender or to anyone.
\<close>

theorem unreadable_or_unknown_payload:
  "onMessage sock playerId NotJson g = Inr (g, [Send sock (Error ''Invalid message format.'')]) \<and>
   onMessage_old sock playerId NotJson g = Inr (g, [Send sock (Error ''Invalid message format.'')]) \<and>
   (data_type d \<noteq> Some MOVE \<and> data_type d \<noteq> Some RESET_GAME \<and> data_type d \<noteq> Some CHAT \<longrightarrow>
      onMessage sock playerId (Json d) g = Inr (g, []) \<and>
      onMessage_old sock playerId (Json d) g = Inr (g, []))"
  by (simp add: onMessage_def onMessage_old_def)

theorem unreadable_or_unknown_payload_witness:
  "data_type \<lparr>data_type = Some ''ping'', data_player = None, data_column = 0, data_text = None\<rparr>
      \<noteq> Some MOVE \<and>
   onMessage 0 PLAYER1 ping_msg two_player_game = Inr (two_player_game, []) \<and>
   onMessage 0 PLAYER1 NotJson two_player_game =
     Inr (two_player_game, [Send 0 (Error ''Invalid message format.'')])"
proof -
  let ?d = "\<lparr>data_type = Some ''ping'', data_player = None, data_column = 0, data_text = None\<rparr>"
  have k: "data_type ?d \<noteq> Some MOVE \<and> data_type ?d \<noteq> Some RESET_GAME \<and> data_type ?d \<noteq> Some CHAT"
    by (simp add: MOVE_def RESET_GAME_def CHAT_def)
  from unreadable_or_unknown_payload[where sock = 0 and playerId = PLAYER1 and g = two_player_game and d = ?d] k
  show ?thesis by (simp add: ping_msg_def)
qed

text \<open>
  Claim C7 as stated fails on a message of an unknown kind: the sender gets no error.
\<close>

theorem unknown_kind_gets_no_error:
  "onMessage 0 PLAYER1 ping_msg two_player_game = Inr (two_player_game, [])"
  by (simp add: onMessage_def ping_msg_def MOVE_def RESET_GAME_def CHAT_def)

subsection \<open>Rejected events\<close>

lemma isValidMove_top:
  assumes "wf_board (board g)"
  shows "isValidMove g c = (0 \<le> c \<and> c < 7 \<and> board g ! 0 ! nat c = None)"
  using wf_board_rows[OF assms, of 0] by (auto simp: isValidMove_def cellAt_def)

text \<open>
  Claim C2, as amended. None of the rejected events changes the game or broadcasts. A move
  by the turn-owner in a running game to a column that is out of range or whose top cell
  is occupied gets one error message, sent to the sender; so does a reset request while
  the status is WAITING or ONGOING (the earlier copy of the handler drops it in silence);
  a connection while the list is full and the status is not WAITING gets one
  \<^verbatim>\<open>game-full\<close> message. A move by the wrong actor, or while the status is not ONGOING,
  is dropped and nothing is sent.
\<close>

theorem rejected_events:
  "(data_type d = Some MOVE \<and>
      \<not> (data_player d = Some playerId \<and> currentPlayer g = playerId \<and> status g = ONGOING) \<longrightarrow>
        onMessage sock playerId (Json d) g = Inr (g, []) \<and>
        onMessage_old sock playerId (Json d) g = Inr (g, [])) \<and>
   (data_type d = Some MOVE \<and> data_player d = Some playerId \<and> currentPlayer g = playerId \<and>
      status g = ONGOING \<and> \<not> isValidMove g (data_column d) \<longrightarrow>
        onMessage sock playerId (Json d) g = Inr (g, [Send sock (Error ''Invalid move.'')]) \<and>
        onMessage_old sock playerId (Json d) g = Inr (g, [Send sock (Error ''Invalid move.'')])) \<and>
   (wf_board (board g) \<longrightarrow>
      isValidMove g c = (0 \<le> c \<and> c < 7 \<and> board g ! 0 ! nat c = None)) \<and>
   (data_type d = Some RESET_GAME \<and> (status g = WAITING \<or> status g = ONGOING) \<longrightarrow>
        onMessage sock playerId (Json d) g =
          Inr (g, [Send sock (Error ''Game can only be reset when it's over.'')])) \<and>
   (data_type d = Some RESET_GAME \<longrightarrow> onMessage_old sock playerId (Json d) g = Inr (g, [])) \<and>
   (length (players g) \<ge> 2 \<and> status g \<noteq> WAITING \<longrightarrow>
        onConnection sock g = (g, None, [Send sock GAME_FULL]))"
proof -
  have a: "onMessage sock playerId (Json d) g = Inr (g, []) \<and>
        onMessage_old sock playerId (Json d) g = Inr (g, [])"
    if "data_type d = Some MOVE"
      "\<not> (data_player d = Some playerId \<and> currentPlayer g = playerId \<and> status g = ONGOING)"
    using that kinds_distinct by (auto simp: onMessage_def onMessage_old_def)
  have b: "onMessage sock playerId (Json d) g = Inr (g, [Send sock (Error ''Invalid move.'')]) \<and>
        onMessage_old sock playerId (Json d) g = Inr (g, [Send sock (Error ''Invalid move.'')])"
    if "data_type d = Some MOVE" "data_player d = Some playerId" "currentPlayer g = playerId"
      "status g = ONGOING" "\<not> isValidMove g (data_column d)"
    using that by (simp add: onMessage_def onMessage_old_def)
  have c: "onMessage sock playerId (Json d) g =
          Inr (g, [Send sock (Error ''Game can only be reset when it's over.'')])"
    if "data_type d = Some RESET_GAME" "status g = WAITING \<or> status g = ONGOING"
    using that kinds_distinct by (auto simp: onMessage_def)
  have c': "onMessage_old sock playerId (Json d) g = Inr (g, [])"
    if "data_type d = Some RESET_GAME"
    using that kinds_distinct by (simp add: onMessage_old_def)
  have e: "onConnection sock g = (g, None, [Send sock GAME_FULL])"
    if "length (players g) \<ge> 2" "status g \<noteq> WAITING"
    using that by (simp add: onConnection_def MAX_PLAYERS_def)
  from a b c c' e isValidMove_top show ?thesis by blast
qed


theorem rejected_events_witness:
  "onMessage 1 PLAYER2 (move_msg PLAYER2 3) two_player_game = Inr (two_player_game, []) \<and>
   wf_board (board full_column_game) \<and> isValidMove full_column_game 0 = False \<and>
   onMessage 0 PLAYER1 (move_msg PLAYER1 0) full_column_game =
     Inr (full_column_game, [Send 0 (Error ''Invalid move.'')]) \<and>
   onMessage 0 PLAYER1 reset_msg two_player_game =
     Inr (two_player_game, [Send 0 (Error ''Game can only be reset when it's over.'')]) \<and>
   onMessage_old 0 PLAYER1 reset_msg two_player_game = Inr (two_player_game, []) \<and>
   onConnection 2 two_player_game = (two_player_game, None, [Send 2 GAME_FULL])"
proof -
  let ?m2 = "\<lparr>data_type = Some MOVE, data_player = Some PLAYER2, data_column = 3, data_text = None\<rparr>"
  let ?m1 = "\<lparr>data_type = Some MOVE, data_player = Some PLAYER1, data_column = 0, data_text = None\<rparr>"
  let ?r = "\<lparr>data_type = Some RESET_GAME, data_player = None, data_column = 0, data_text = None\<rparr>"
  have t: "currentPlayer two_player_game = PLAYER1" "status two_player_game = ONGOING"
    "length (players two_player_game) = 2"
    by (simp_all add: two_player_game_def initial_game_def)
  have f: "currentPlayer full_column_game = PLAYER1" "status full_column_game = ONGOING"
    "wf_board (board full_column_game)" "board full_column_game ! 0 ! nat 0 \<noteq> None"
    by (simp_all add: full_column_game_def two_player_game_def initial_game_def
          full_column_board_def wf_board_def)
  from rejected_events[where d = ?m2 and playerId = PLAYER2 and g = two_player_game and sock = 1] t
  have a: "onMessage 1 PLAYER2 (move_msg PLAYER2 3) two_player_game = Inr (two_player_game, [])"
    by (simp add: move_msg_def)
  from rejected_events[where d = ?m1 and playerId = PLAYER1 and g = full_column_game and sock = 0
      and c = 0] f
  have b: "isValidMove full_column_game 0 = False"
    "onMessage 0 PLAYER1 (move_msg PLAYER1 0) full_column_game =
     Inr (full_column_game, [Send 0 (Error ''Invalid move.'')])"
    by (simp_all add: move_msg_def)
  from rejected_events[where d = ?r and playerId = PLAYER1 and g = two_player_game and sock = 0] t
  have c: "onMessage 0 PLAYER1 reset_msg two_player_game =
     Inr (two_player_game, [Send 0 (Error ''Game can only be reset when it's over.'')])"
    "onMessage_old 0 PLAYER1 reset_msg two_player_game = Inr (two_player_game, [])"
    by (simp_all add: reset_msg_def)
  from rejected_events[where g = two_player_game and sock = 2] t
  have e: "onConnection 2 two_player_game = (two_player_game, None, [Send 2 GAME_FULL])"
    by simp
  from a b c e f(3) show ?thesis by simp
qed

text \<open>
  Claim C2 as stated fails on its own scenario: seat A, alone and waiting, sends a move;
  the board is unchanged, and no error is sent.
\<close>

theorem move_while_waiting_gets_no_error:
  "run initial_server [Connection] =
     Inr \<lparr>srv_game = one_player_game, srv_socks = [Some PLAYER1]\<rparr> \<and>
   status one_player_game = WAITING \<and>
   step (Message 0 (move_msg PLAYER1 3)) \<lparr>srv_game = one_player_game, srv_socks = [Some PLAYER1]\<rparr> =
     Inr (\<lparr>srv_game = one_player_game, srv_socks = [Some PLAYER1]\<rparr>, []) \<and>
   onMessage 0 PLAYER1 (move_msg PLAYER1 3) one_player_game = Inr (one_player_game, [])"
proof -
  have "run initial_server [Connection] =
     Inr \<lparr>srv_game = one_player_game, srv_socks = [Some PLAYER1]\<rparr>"
    by code_simp
  moreover have "status one_player_game = WAITING"
    by (simp add: one_player_game_def initial_game_def)
  moreover have m: "onMessage 0 PLAYER1 (move_msg PLAYER1 3) one_player_game = Inr (one_player_game, [])"
    by (simp add: onMessage_def move_msg_def one_player_game_def initial_game_def
          MOVE_def RESET_GAME_def CHAT_def)
  moreover have "step (Message 0 (move_msg PLAYER1 3))
       \<lparr>srv_game = one_player_game, srv_socks = [Some PLAYER1]\<rparr> =
     Inr (\<lparr>srv_game = one_player_game, srv_socks = [Some PLAYER1]\<rparr>, [])"
    by (simp add: step_def m)
  ultimately show ?thesis by simp
qed

subsection \<open>Disconnects of participants\<close>

lemma fullGameReset_initial: "fullGameReset g = initial_game"
  by (cases g) (simp add: fullGameReset_def initial_game_def)

lemma splice1_length: "i < length xs \<Longrightarrow> length (splice1 xs i) = length xs - 1"
  by (simp add: splice1_def)

lemma distinct_splice:
  assumes "distinct xs" "i < length xs"
  shows "xs ! i \<notin> set (take i xs @ drop (Suc i) xs)"
proof -
  have "distinct (take i xs @ xs ! i # drop (Suc i) xs)"
    using assms by (simp only: id_take_nth_drop[symmetric])
  then show ?thesis by auto
qed

lemma handlePlayerDisconnect_found:
  assumes i: "findIndex (\<lambda>p. id' p = pid) (players g) = Some i"
    and rest: "splice1 (players g) i = rest"
  shows "handlePlayerDisconnect (Some pid) g =
           (if status g = ONGOING
            then (if rest = []
                  then (initial_game,
                        broadcastGameState (g\<lparr>players := [], status := ABANDONED, winner := None\<rparr>))
                  else if length rest = 1
                  then (g\<lparr>players := rest, status := ABANDONED, winner := Some (id' (rest ! 0))\<rparr>,
                        broadcastGameState
                          (g\<lparr>players := rest, status := ABANDONED, winner := Some (id' (rest ! 0))\<rparr>))
                  else (g\<lparr>players := rest, status := ABANDONED, winner := None\<rparr>,
                        broadcastGameState (g\<lparr>players := rest, status := ABANDONED, winner := None\<rparr>)))
            else if rest = [] \<and> status g \<noteq> WAITING then (initial_game, [])
            else (g\<lparr>players := rest\<rparr>, []))"
  unfolding handlePlayerDisconnect_def option.case i rest
  by (cases "status g = ONGOING"; cases "rest = []"; cases "length rest = 1")
     (simp_all add: Let_def fullGameReset_initial)

text \<open>
  What \<open>handlePlayerDisconnect\<close> does with an identity that a participant holds. The
  first participant with that identity is taken out of the list (where the identities
  are distinct, no participant holds the identity any more). If the status was ONGOING
  it becomes ABANDONED, the winner is the remaining participant when exactly one remains
  and is unset otherwise, and that state is broadcast. If the status was not ONGOING,
  status and winner stay. After that, when the list is empty and the status is not
  WAITING, the game is rebuilt: empty board, no participant, no winner, status WAITING,
  seat A to move.
\<close>

lemma handlePlayerDisconnect_participant:
  assumes "pid \<in> id' ` set (players g)"
  shows "\<exists>i<length (players g). \<exists>g' out rest.
           id' (players g ! i) = pid \<and> (\<forall>j<i. id' (players g ! j) \<noteq> pid) \<and>
           rest = take i (players g) @ drop (Suc i) (players g) \<and>
           length rest = length (players g) - 1 \<and>
           (distinct (map id' (players g)) \<longrightarrow> pid \<notin> id' ` set rest) \<and>
           handlePlayerDisconnect (Some pid) g = (g', out) \<and>
           (status g = ONGOING \<and> length rest = 1 \<longrightarrow>
              g' = g\<lparr>players := rest, status := ABANDONED, winner := Some (id' (rest ! 0))\<rparr> \<and>
              out = broadcastGameState g') \<and>
           (status g = ONGOING \<and> length rest > 1 \<longrightarrow>
              g' = g\<lparr>players := rest, status := ABANDONED, winner := None\<rparr> \<and>
              out = broadcastGameState g') \<and>
           (status g \<noteq> ONGOING \<and> (rest \<noteq> [] \<or> status g = WAITING) \<longrightarrow>
              g' = g\<lparr>players := rest\<rparr> \<and> out = []) \<and>
           (rest = [] \<and> status g \<noteq> WAITING \<longrightarrow>
              g' = initial_game \<and> boardEmpty (board g') \<and> players g' = [] \<and>
              winner g' = None \<and> status g' = WAITING \<and> currentPlayer g' = PLAYER1 \<and>
              (status g = ONGOING \<longrightarrow>
                 out = broadcastGameState (g\<lparr>players := [], status := ABANDONED, winner := None\<rparr>)) \<and>
              (status g \<noteq> ONGOING \<longrightarrow> out = []))"
proof -
  from assms have "findIndex (\<lambda>p. id' p = pid) (players g) \<noteq> None"
    unfolding findIndex_None by auto
  then obtain i where i: "findIndex (\<lambda>p. id' p = pid) (players g) = Some i" by blast
  from findIndex_Some[OF i] have il: "i < length (players g)" and ip: "id' (players g ! i) = pid"
    and first: "\<forall>j<i. id' (players g ! j) \<noteq> pid"
    by simp_all
  define rest where "rest = take i (players g) @ drop (Suc i) (players g)"
  have sp: "splice1 (players g) i = rest" by (simp add: splice1_def rest_def)
  have len: "length rest = length (players g) - 1" using il by (simp add: rest_def)
  have gone: "pid \<notin> id' ` set rest" if d: "distinct (map id' (players g))"
  proof -
    from il have "i < length (map id' (players g))" by simp
    from distinct_splice[OF d this] ip il show ?thesis
      by (auto simp: rest_def take_map drop_map)
  qed
  note r = handlePlayerDisconnect_found[OF i sp]
  obtain g' out where go: "handlePlayerDisconnect (Some pid) g = (g', out)" by fastforce
  have c1: "g' = g\<lparr>players := rest, status := ABANDONED, winner := Some (id' (rest ! 0))\<rparr> \<and>
              out = broadcastGameState g'"
    if "status g = ONGOING" "length rest = 1"
    using go that unfolding r by (auto split: if_splits)
  have c2: "g' = g\<lparr>players := rest, status := ABANDONED, winner := None\<rparr> \<and>
              out = broadcastGameState g'"
    if "status g = ONGOING" "length rest > 1"
    using go that unfolding r by (auto split: if_splits)
  have c3: "g' = g\<lparr>players := rest\<rparr> \<and> out = []"
    if "status g \<noteq> ONGOING" "rest \<noteq> [] \<or> status g = WAITING"
    using go that unfolding r by (auto split: if_splits)
  have c4: "g' = initial_game \<and> boardEmpty (board g') \<and> players g' = [] \<and>
              winner g' = None \<and> status g' = WAITING \<and> currentPlayer g' = PLAYER1 \<and>
              (status g = ONGOING \<longrightarrow>
                 out = broadcastGameState (g\<lparr>players := [], status := ABANDONED, winner := None\<rparr>)) \<and>
              (status g \<noteq> ONGOING \<longrightarrow> out = [])"
    if "rest = []" "status g \<noteq> WAITING"
    using go that createEmptyBoard_empty unfolding r
    by (auto simp: initial_game_def split: if_splits)
  from il ip first len gone go c1 c2 c3 c4 rest_def show ?thesis by blast
qed

text \<open>
  Scenario C of the specification (seat B leaves a running game, then seat A leaves), a
  departure after a win, and the branch in which more than one participant remains.
\<close>

lemma handlePlayerDisconnect_participant_examples:
  "PLAYER2 \<in> id' ` set (players two_player_game) \<and> status two_player_game = ONGOING \<and>
   handlePlayerDisconnect (Some PLAYER2) two_player_game =
     (abandoned_game, broadcastGameState abandoned_game) \<and>
   status abandoned_game = ABANDONED \<and> winner abandoned_game = Some PLAYER1 \<and>
   PLAYER1 \<in> id' ` set (players abandoned_game) \<and>
   handlePlayerDisconnect (Some PLAYER1) abandoned_game = (initial_game, []) \<and>
   status initial_game = WAITING \<and> players initial_game = [] \<and>
   board initial_game = createEmptyBoard \<and> winner initial_game = None \<and>
   status won_game = WIN \<and>
   handlePlayerDisconnect (Some PLAYER2) won_game =
     (won_game\<lparr>players := [\<lparr>id' = PLAYER1, ws = 0\<rparr>]\<rparr>, []) \<and>
   status three_seats_game = ONGOING \<and>
   handlePlayerDisconnect (Some PLAYER1) three_seats_game =
     (three_seats_game\<lparr>players := [\<lparr>id' = PLAYER2, ws = 1\<rparr>, \<lparr>id' = PLAYER2, ws = 2\<rparr>],
                        status := ABANDONED, winner := None\<rparr>,
      broadcastGameState
        (three_seats_game\<lparr>players := [\<lparr>id' = PLAYER2, ws = 1\<rparr>, \<lparr>id' = PLAYER2, ws = 2\<rparr>],
                           status := ABANDONED, winner := None\<rparr>))"
proof -
  have mw: "PLAYER2 \<in> id' ` set (players won_game)"
    and stw: "status won_game = WIN"
    and psw: "players won_game = [\<lparr>id' = PLAYER1, ws = 0\<rparr>, \<lparr>id' = PLAYER2, ws = 1\<rparr>]"
    by (simp_all add: won_game_def two_player_game_def)
  from handlePlayerDisconnect_participant[OF mw] obtain k w' outw restw where
    k: "k < length (players won_game)" "id' (players won_game ! k) = PLAYER2"
    and restw: "restw = take k (players won_game) @ drop (Suc k) (players won_game)"
    and rw: "handlePlayerDisconnect (Some PLAYER2) won_game = (w', outw)"
    and cw: "status won_game \<noteq> ONGOING \<and> (restw \<noteq> [] \<or> status won_game = WAITING) \<longrightarrow>
              w' = won_game\<lparr>players := restw\<rparr> \<and> outw = []"
    by blast
  from k have "k = 1" unfolding psw by (cases k) simp_all
  with restw have "restw = [\<lparr>id' = PLAYER1, ws = 0\<rparr>]" unfolding psw by simp
  with cw stw rw have w: "handlePlayerDisconnect (Some PLAYER2) won_game =
     (won_game\<lparr>players := [\<lparr>id' = PLAYER1, ws = 0\<rparr>]\<rparr>, [])" by simp
  have m3: "PLAYER1 \<in> id' ` set (players three_seats_game)"
    and st3: "status three_seats_game = ONGOING"
    and ps3: "players three_seats_game =
       [\<lparr>id' = PLAYER1, ws = 0\<rparr>, \<lparr>id' = PLAYER2, ws = 1\<rparr>, \<lparr>id' = PLAYER2, ws = 2\<rparr>]"
    by (simp_all add: three_seats_game_def two_player_game_def)
  from handlePlayerDisconnect_participant[OF m3] obtain n t' outt restt where
    n: "n < length (players three_seats_game)" "id' (players three_seats_game ! n) = PLAYER1"
    and restt: "restt = take n (players three_seats_game) @ drop (Suc n) (players three_seats_game)"
    and rt: "handlePlayerDisconnect (Some PLAYER1) three_seats_game = (t', outt)"
    and ct: "status three_seats_game = ONGOING \<and> length restt > 1 \<longrightarrow>
              t' = three_seats_game\<lparr>players := restt, status := ABANDONED, winner := None\<rparr> \<and>
              outt = broadcastGameState t'"
    by blast
  have "n = 0"
  proof -
    from n(1) have "n < 3" unfolding ps3 by simp
    then consider "n = 0" | "n = 1" | "n = 2" by linarith
    then show ?thesis using n(2) unfolding ps3 by cases simp_all
  qed
  with restt have "restt = [\<lparr>id' = PLAYER2, ws = 1\<rparr>, \<lparr>id' = PLAYER2, ws = 2\<rparr>]"
    unfolding ps3 by simp
  with ct st3 rt have t: "handlePlayerDisconnect (Some PLAYER1) three_seats_game =
     (three_seats_game\<lparr>players := [\<lparr>id' = PLAYER2, ws = 1\<rparr>, \<lparr>id' = PLAYER2, ws = 2\<rparr>],
                        status := ABANDONED, winner := None\<rparr>,
      broadcastGameState
        (three_seats_game\<lparr>players := [\<lparr>id' = PLAYER2, ws = 1\<rparr>, \<lparr>id' = PLAYER2, ws = 2\<rparr>],
                           status := ABANDONED, winner := None\<rparr>))" by simp
  have m2: "PLAYER2 \<in> id' ` set (players two_player_game)"
    and st2: "status two_player_game = ONGOING"
    and ps2: "players two_player_game = [\<lparr>id' = PLAYER1, ws = 0\<rparr>, \<lparr>id' = PLAYER2, ws = 1\<rparr>]"
    by (simp_all add: two_player_game_def)
  from handlePlayerDisconnect_participant[OF m2] obtain i g' out rest where
    i: "i < length (players two_player_game)" "id' (players two_player_game ! i) = PLAYER2"
    and rest: "rest = take i (players two_player_game) @ drop (Suc i) (players two_player_game)"
    and r: "handlePlayerDisconnect (Some PLAYER2) two_player_game = (g', out)"
    and c: "status two_player_game = ONGOING \<and> length rest = 1 \<longrightarrow>
              g' = two_player_game\<lparr>players := rest, status := ABANDONED,
                     winner := Some (id' (rest ! 0))\<rparr> \<and>
              out = broadcastGameState g'"
    by blast
  from i have "i = 1" unfolding ps2 by (cases i) simp_all
  with rest have rest': "rest = [\<lparr>id' = PLAYER1, ws = 0\<rparr>]" unfolding ps2 by simp
  with c st2 have "g' = abandoned_game" "out = broadcastGameState g'"
    by (simp_all add: abandoned_game_def two_player_game_def)
  with r have a: "handlePlayerDisconnect (Some PLAYER2) two_player_game =
     (abandoned_game, broadcastGameState abandoned_game)" by simp
  have m1: "PLAYER1 \<in> id' ` set (players abandoned_game)"
    and st1: "status abandoned_game = ABANDONED" "winner abandoned_game = Some PLAYER1"
    and ps1: "players abandoned_game = [\<lparr>id' = PLAYER1, ws = 0\<rparr>]"
    by (simp_all add: abandoned_game_def)
  from handlePlayerDisconnect_participant[OF m1] obtain j h' out' rest2 where
    j: "j < length (players abandoned_game)"
    and rest2: "rest2 = take j (players abandoned_game) @ drop (Suc j) (players abandoned_game)"
    and r2: "handlePlayerDisconnect (Some PLAYER1) abandoned_game = (h', out')"
    and c2: "rest2 = [] \<and> status abandoned_game \<noteq> WAITING \<longrightarrow>
              h' = initial_game \<and>
              (status abandoned_game = ONGOING \<longrightarrow>
                 out' = broadcastGameState
                   (abandoned_game\<lparr>players := [], status := ABANDONED, winner := None\<rparr>)) \<and>
              (status abandoned_game \<noteq> ONGOING \<longrightarrow> out' = [])"
    by blast
  from j have "j = 0" unfolding ps1 by simp
  with rest2 have "rest2 = []" unfolding ps1 by simp
  with c2 st1 have "h' = initial_game" "out' = []" by simp_all
  with r2 have b: "handlePlayerDisconnect (Some PLAYER1) abandoned_game = (initial_game, [])"
    by simp
  have ini: "status initial_game = WAITING" "players initial_game = []"
    "board initial_game = createEmptyBoard" "winner initial_game = None"
    by (simp_all add: initial_game_def)
  from m2 st2 a st1 m1 b ini stw w st3 t show ?thesis by simp
qed

text \<open>
  Claim C4 says that the participant who disconnects is removed. That fails in a
  session the server reaches: seat A leaves a running game and a new socket connects,
  which is given the identity of the participant who stayed (sockets 1 and 2 both hold
  \<open>PLAYER2\<close>). When socket 2 closes, \<open>handlePlayerDisconnect\<close> looks the participant up by
  identity and removes the first one it finds, the participant of socket 1, whose
  socket is open. The participant of the closed socket 2 stays in the list.
\<close>

theorem close_removes_another_participant:
  "run initial_server [Connection, Connection, Close 0, Connection] =
     Inr \<lparr>srv_game = same_seat_game, srv_socks = [None, Some PLAYER2, Some PLAYER2]\<rparr> \<and>
   players same_seat_game = [\<lparr>id' = PLAYER2, ws = 1\<rparr>, \<lparr>id' = PLAYER2, ws = 2\<rparr>] \<and>
   step (Close 2) \<lparr>srv_game = same_seat_game, srv_socks = [None, Some PLAYER2, Some PLAYER2]\<rparr> =
     Inr (\<lparr>srv_game = same_seat_game\<lparr>players := [\<lparr>id' = PLAYER2, ws = 2\<rparr>]\<rparr>,
           srv_socks = [None, Some PLAYER2, None]\<rparr>, []) \<and>
   run initial_server [Connection, Connection, Close 0, Connection, Close 2] =
     Inr \<lparr>srv_game = same_seat_game\<lparr>players := [\<lparr>id' = PLAYER2, ws = 2\<rparr>]\<rparr>,
          srv_socks = [None, Some PLAYER2, None]\<rparr>"
proof -
  have a: "run initial_server [Connection, Connection, Close 0, Connection] =
     Inr \<lparr>srv_game = same_seat_game, srv_socks = [None, Some PLAYER2, Some PLAYER2]\<rparr>"
    by code_simp
  have b: "players same_seat_game = [\<lparr>id' = PLAYER2, ws = 1\<rparr>, \<lparr>id' = PLAYER2, ws = 2\<rparr>]"
    by (simp add: same_seat_game_def)
  have c: "step (Close 2) \<lparr>srv_game = same_seat_game, srv_socks = [None, Some PLAYER2, Some PLAYER2]\<rparr> =
     Inr (\<lparr>srv_game = same_seat_game\<lparr>players := [\<lparr>id' = PLAYER2, ws = 2\<rparr>]\<rparr>,
           srv_socks = [None, Some PLAYER2, None]\<rparr>, [])"
    by code_simp
  have d: "run initial_server [Connection, Connection, Close 0, Connection, Close 2] =
     Inr \<lparr>srv_game = same_seat_game\<lparr>players := [\<lparr>id' = PLAYER2, ws = 2\<rparr>]\<rparr>,
          srv_socks = [None, Some PLAYER2, None]\<rparr>"
    by code_simp
  from a b c d show ?thesis by simp
qed

section \<open>The reachable sessions\<close>

text \<open>A property that every step keeps holds after every run that starts with it.\<close>

lemma run_invariant:
  assumes step: "\<And>ev s s' out. P s \<Longrightarrow> step ev s = Inr (s', out) \<Longrightarrow> P s'"
  shows "P s \<Longrightarrow> run s evs = Inr t \<Longrightarrow> P t"
proof (induction evs arbitrary: s)
  case Nil
  then show ?case by simp
next
  case (Cons ev evs)
  from Cons.prems(2) obtain s' out where s': "step ev s = Inr (s', out)" and rest: "run s' evs = Inr t"
    by (auto split: sum.splits)
  from step[OF Cons.prems(1) s'] have "P s'" .
  from Cons.IH[OF this rest] show ?case .
qed

lemma onConnection_inv:
  assumes "length (players g) \<le> 2" "length (players g) = 2 \<longrightarrow> status g \<noteq> WAITING"
    "status g = ONGOING \<longrightarrow> length (players g) = 2"
    and "onConnection sock g = (g', pid, out)"
  shows "length (players g') \<le> 2 \<and> (length (players g') = 2 \<longrightarrow> status g' \<noteq> WAITING) \<and>
         (status g' = ONGOING \<longrightarrow> length (players g') = 2)"
  using assms
  by (auto simp: onConnection_def MAX_PLAYERS_def Let_def split: if_splits)

lemma afterMove_inv:
  assumes "status g = ONGOING"
  shows "players (afterMove g c p) = players g \<and> status (afterMove g c p) \<noteq> WAITING"
proof -
  let ?g2 = "checkWinCondition (fst (makeMove g c p))"
  have "status ?g2 \<noteq> WAITING"
    using checkWinCondition_status[of "fst (makeMove g c p)"] assms by (auto simp: makeMove_frame)
  moreover have "players ?g2 = players g"
    by (simp add: checkWinCondition_frame makeMove_frame)
  ultimately show ?thesis
    by (simp add: afterMove_def Let_def)
qed

lemma onMessage_inv:
  assumes "length (players g) \<le> 2" "length (players g) = 2 \<longrightarrow> status g \<noteq> WAITING"
    "status g = ONGOING \<longrightarrow> length (players g) = 2"
    and msg: "onMessage sock pid m g = Inr (g', out)"
  shows "length (players g') \<le> 2 \<and> (length (players g') = 2 \<longrightarrow> status g' \<noteq> WAITING) \<and>
         (status g' = ONGOING \<longrightarrow> length (players g') = 2)"
proof (cases m)
  case NotJson
  with assms show ?thesis by (simp add: onMessage_def)
next
  case JsonNull
  with assms show ?thesis by (simp add: onMessage_def)
next
  case (Json d)
  show ?thesis
  proof (cases "data_type d = Some MOVE \<and> data_player d = Some pid \<and>
                  currentPlayer g = pid \<and> status g = ONGOING")
    case True
    show ?thesis
    proof (cases "isValidMove g (data_column d)")
      case valid: True
      from onMessage_accepted(1)[of d pid g sock] True valid msg Json
      have "g' = afterMove g (data_column d) pid" by simp
      with afterMove_inv[of g "data_column d" pid] True assms(1,3) show ?thesis by simp
    next
      case False
      with True Json assms show ?thesis by (simp add: onMessage_def)
    qed
  next
    case False
    with Json assms show ?thesis
      by (auto simp: onMessage_def playerInitiatedReset_def broadcastChatMessage_def
            MAX_PLAYERS_def Let_def split: if_splits option.splits)
  qed
qed

lemma handlePlayerDisconnect_inv:
  assumes "length (players g) \<le> 2" "length (players g) = 2 \<longrightarrow> status g \<noteq> WAITING"
    "status g = ONGOING \<longrightarrow> length (players g) = 2"
    and "handlePlayerDisconnect (Some pid) g = (g', out)"
  shows "length (players g') \<le> 2 \<and> (length (players g') = 2 \<longrightarrow> status g' \<noteq> WAITING) \<and>
         (status g' = ONGOING \<longrightarrow> length (players g') = 2)"
proof (cases "findIndex (\<lambda>p. id' p = pid) (players g)")
  case None
  with assms show ?thesis by (simp add: handlePlayerDisconnect_def)
next
  case (Some i)
  define rest where "rest = splice1 (players g) i"
  from findIndex_Some[OF Some] have "i < length (players g)" by simp
  with assms(1) have short: "length rest < 2"
    by (simp add: rest_def splice1_length)
  have "(players g' = rest \<or> players g' = []) \<and> status g' \<noteq> ONGOING"
    using assms(4) unfolding handlePlayerDisconnect_found[OF Some rest_def[symmetric]]
    by (auto simp: initial_game_def split: if_splits)
  with short show ?thesis by auto
qed

lemma step_inv:
  assumes "session_inv s" "step ev s = Inr (s', out)"
  shows "session_inv s'"
proof (cases ev)
  case Connection
  obtain g' pid out' where c: "onConnection (length (srv_socks s)) (srv_game s) = (g', pid, out')"
    by (metis prod_cases3)
  with assms(2) Connection have "srv_game s' = g'" by (auto simp: step_def)
  with onConnection_inv[OF _ _ _ c] assms(1) show ?thesis by (simp add: session_inv_def)
next
  case (Message sock m)
  show ?thesis
  proof (cases "sock < length (srv_socks s) \<and> srv_socks s ! sock \<noteq> None")
    case True
    then obtain pid where pid: "srv_socks s ! sock = Some pid" by blast
    with assms(2) Message True obtain g' where
      g': "onMessage sock pid m (srv_game s) = Inr (g', out)" "srv_game s' = g'"
      by (auto simp: step_def split: sum.splits)
    with onMessage_inv[OF _ _ _ g'(1)] assms(1) show ?thesis by (simp add: session_inv_def)
  next
    case False
    with assms Message show ?thesis by (auto simp: step_def split: if_splits)
  qed
next
  case (Close sock)
  show ?thesis
  proof (cases "sock < length (srv_socks s) \<and> srv_socks s ! sock \<noteq> None")
    case True
    then obtain pid where pid: "srv_socks s ! sock = Some pid" by blast
    with assms(2) Close True obtain g' where
      g': "handlePlayerDisconnect (Some pid) (srv_game s) = (g', out)" "srv_game s' = g'"
      by (auto simp: step_def split: prod.splits)
    with handlePlayerDisconnect_inv[OF _ _ _ g'(1)] assms(1) show ?thesis
      by (simp add: session_inv_def)
  next
    case False
    with assms Close show ?thesis by (auto simp: step_def split: if_splits)
  qed
qed

lemma reachable_inv:
  assumes "reachable s"
  shows "session_inv s"
proof -
  from assms obtain evs where evs: "run initial_server evs = Inr s"
    unfolding reachable_def by blast
  have "session_inv initial_server"
    by (simp add: session_inv_def initial_server_def initial_game_def)
  from run_invariant[of session_inv, OF step_inv this evs] show ?thesis .
qed

lemma reachable_ongoing:
  "reachable s \<Longrightarrow> status (srv_game s) = ONGOING \<Longrightarrow> length (players (srv_game s)) = 2"
  using reachable_inv[of s] by (simp add: session_inv_def)

text \<open>
  Claim C3, as amended. In every reachable state there are at most 2 participants. A
  connection is accepted exactly when fewer than 2 participants are present, whatever the
  status, and the joiner is added at the end of the list, which is otherwise unchanged.
  The joiner of an empty list is seat A (\<open>PLAYER1\<close>); the joiner of a list that holds
  seat A alone is seat B (\<open>PLAYER2\<close>), and the identities are then distinct and in join
  order.
\<close>

theorem seats_and_joins:
  assumes "reachable s"
  shows "length (players (srv_game s)) \<le> 2 \<and>
         (fst (snd (onConnection sock (srv_game s))) \<noteq> None) = (length (players (srv_game s)) < 2) \<and>
         (length (players (srv_game s)) = 2 \<longrightarrow>
            onConnection sock (srv_game s) = (srv_game s, None, [Send sock GAME_FULL])) \<and>
         (length (players (srv_game s)) < 2 \<longrightarrow>
            (\<exists>p. fst (snd (onConnection sock (srv_game s))) = Some p \<and>
                 players (fst (onConnection sock (srv_game s))) =
                   players (srv_game s) @ [\<lparr>id' = p, ws = sock\<rparr>])) \<and>
         (players (srv_game s) = [] \<longrightarrow>
            fst (snd (onConnection sock (srv_game s))) = Some PLAYER1 \<and>
            map id' (players (fst (onConnection sock (srv_game s)))) = [PLAYER1]) \<and>
         (map id' (players (srv_game s)) = [PLAYER1] \<longrightarrow>
            fst (snd (onConnection sock (srv_game s))) = Some PLAYER2 \<and>
            map id' (players (fst (onConnection sock (srv_game s)))) = [PLAYER1, PLAYER2])"
proof -
  let ?g = "srv_game s"
  from reachable_inv[OF assms] have le: "length (players ?g) \<le> 2"
    and two: "length (players ?g) = 2 \<longrightarrow> status ?g \<noteq> WAITING"
    by (simp_all add: session_inv_def)
  have full: "onConnection sock ?g = (?g, None, [Send sock GAME_FULL])"
    if "length (players ?g) = 2"
    using that two by (simp add: onConnection_def MAX_PLAYERS_def)
  have free: "\<exists>p. fst (snd (onConnection sock ?g)) = Some p \<and>
                 players (fst (onConnection sock ?g)) = players ?g @ [\<lparr>id' = p, ws = sock\<rparr>]"
    if "length (players ?g) < 2"
    using that by (simp add: onConnection_def MAX_PLAYERS_def Let_def)
  have first: "fst (snd (onConnection sock ?g)) = Some PLAYER1 \<and>
            map id' (players (fst (onConnection sock ?g))) = [PLAYER1]"
    if "players ?g = []"
    using that by (simp add: onConnection_def MAX_PLAYERS_def Let_def)
  have second: "fst (snd (onConnection sock ?g)) = Some PLAYER2 \<and>
            map id' (players (fst (onConnection sock ?g))) = [PLAYER1, PLAYER2]"
    if "map id' (players ?g) = [PLAYER1]"
  proof -
    from that have "length (players ?g) = 1" by (metis length_map length_Cons list.size(3) One_nat_def)
    with that show ?thesis by (simp add: onConnection_def MAX_PLAYERS_def Let_def)
  qed
  have acc: "(fst (snd (onConnection sock ?g)) \<noteq> None) = (length (players ?g) < 2)"
  proof (cases "length (players ?g) < 2")
    case True
    with free show ?thesis by auto
  next
    case False
    with le have "length (players ?g) = 2" by simp
    with full show ?thesis by simp
  qed
  from le acc full free first second show ?thesis by blast
qed

theorem seats_and_joins_witness:
  "reachable initial_server \<and>
   fst (snd (onConnection 0 initial_game)) = Some PLAYER1 \<and>
   reachable \<lparr>srv_game = one_player_game, srv_socks = [Some PLAYER1]\<rparr> \<and>
   map id' (players one_player_game) = [PLAYER1] \<and>
   fst (snd (onConnection 1 one_player_game)) = Some PLAYER2 \<and>
   map id' (players (fst (onConnection 1 one_player_game))) = [PLAYER1, PLAYER2] \<and>
   reachable \<lparr>srv_game = two_player_game, srv_socks = [Some PLAYER1, Some PLAYER2]\<rparr> \<and>
   length (players two_player_game) = 2 \<and>
   onConnection 2 two_player_game = (two_player_game, None, [Send 2 GAME_FULL])"
proof -
  let ?s1 = "\<lparr>srv_game = one_player_game, srv_socks = [Some PLAYER1]\<rparr>"
  let ?s2 = "\<lparr>srv_game = two_player_game, srv_socks = [Some PLAYER1, Some PLAYER2]\<rparr>"
  have "run initial_server [] = Inr initial_server" by simp
  then have r0: "reachable initial_server" unfolding reachable_def by blast
  have "run initial_server [Connection] = Inr ?s1" by code_simp
  then have r1: "reachable ?s1" unfolding reachable_def by blast
  have "run initial_server [Connection, Connection] = Inr ?s2" by code_simp
  then have r2: "reachable ?s2" unfolding reachable_def by blast
  have p0: "players (srv_game initial_server) = []" "srv_game initial_server = initial_game"
    by (simp_all add: initial_server_def initial_game_def)
  have p1: "map id' (players one_player_game) = [PLAYER1]"
    by (simp add: one_player_game_def)
  have p2: "length (players two_player_game) = 2"
    by (simp add: two_player_game_def)
  from seats_and_joins[OF r0, of 0] p0
  have a: "fst (snd (onConnection 0 initial_game)) = Some PLAYER1" by simp
  from seats_and_joins[OF r1, of 1] p1
  have b: "fst (snd (onConnection 1 one_player_game)) = Some PLAYER2"
    "map id' (players (fst (onConnection 1 one_player_game))) = [PLAYER1, PLAYER2]"
    by simp_all
  from seats_and_joins[OF r2, of 2] p2
  have c: "onConnection 2 two_player_game = (two_player_game, None, [Send 2 GAME_FULL])"
    by simp
  from r0 a r1 p1 b r2 p2 c show ?thesis by simp
qed

text \<open>
  Claim C3 as stated fails after seat A has left a running game: the status is
  ABANDONED, not WAITING, yet the next connection is accepted, and it is given the
  identity that the remaining participant holds.
\<close>

theorem second_seat_given_twice:
  "run initial_server [Connection, Connection, Close 0] =
     Inr \<lparr>srv_game = seat_b_alone_game, srv_socks = [None, Some PLAYER2]\<rparr> \<and>
   status seat_b_alone_game = ABANDONED \<and>
   step Connection \<lparr>srv_game = seat_b_alone_game, srv_socks = [None, Some PLAYER2]\<rparr> =
     Inr (\<lparr>srv_game = same_seat_game, srv_socks = [None, Some PLAYER2, Some PLAYER2]\<rparr>,
          [Send 2 (PLAYER_ASSIGNMENT PLAYER2 createEmptyBoard PLAYER1 ABANDONED)]) \<and>
   reachable \<lparr>srv_game = same_seat_game, srv_socks = [None, Some PLAYER2, Some PLAYER2]\<rparr> \<and>
   map id' (players same_seat_game) = [PLAYER2, PLAYER2]"
proof -
  have a: "run initial_server [Connection, Connection, Close 0] =
     Inr \<lparr>srv_game = seat_b_alone_game, srv_socks = [None, Some PLAYER2]\<rparr>"
    by code_simp
  have b: "status seat_b_alone_game = ABANDONED"
    by (simp add: seat_b_alone_game_def)
  have c: "step Connection \<lparr>srv_game = seat_b_alone_game, srv_socks = [None, Some PLAYER2]\<rparr> =
     Inr (\<lparr>srv_game = same_seat_game, srv_socks = [None, Some PLAYER2, Some PLAYER2]\<rparr>,
          [Send 2 (PLAYER_ASSIGNMENT PLAYER2 createEmptyBoard PLAYER1 ABANDONED)])"
    by code_simp
  have "run initial_server [Connection, Connection, Close 0, Connection] =
     Inr \<lparr>srv_game = same_seat_game, srv_socks = [None, Some PLAYER2, Some PLAYER2]\<rparr>"
    by code_simp
  then have d: "reachable \<lparr>srv_game = same_seat_game, srv_socks = [None, Some PLAYER2, Some PLAYER2]\<rparr>"
    unfolding reachable_def by blast
  have e: "map id' (players same_seat_game) = [PLAYER2, PLAYER2]"
    by (simp add: same_seat_game_def)
  from a b c d e show ?thesis by simp
qed


section \<open>The boards of the reachable states\<close>

lemma wf_createEmptyBoard: "wf_board createEmptyBoard \<and> gravity createEmptyBoard"
  by (simp add: wf_board_def createEmptyBoard_def list_all_iff gravity_def)

lemma makeMove_keeps:
  assumes wf: "wf_board (board g)" and grav: "gravity (board g)" and c: "0 \<le> c" "c < 7"
  shows "wf_board (board (fst (makeMove g c p))) \<and> gravity (board (fst (makeMove g c p)))"
proof (cases "\<exists>r<6. board g ! r ! nat c = None")
  case True
  from greatest_below[OF this] obtain r0 where
    r0: "r0 < 6" "board g ! r0 ! nat c = None"
    and below: "\<forall>r. r0 < r \<and> r < 6 \<longrightarrow> board g ! r ! nat c \<noteq> None"
    by blast
  have nc: "nat c < 7" using c by simp
  have "wf_board ((board g)[r0 := (board g ! r0)[nat c := Some p]])"
    using wf r0(1) by (auto simp: wf_board_def list_all_length nth_list_update)
  with gravity_drop[OF wf nc r0(1) below grav, of p] makeMove_lowest[OF wf c r0 below, of p]
  show ?thesis by simp
next
  case False
  then have "\<forall>r<6. board g ! r ! nat c \<noteq> None" by simp
  from makeMove_full[OF wf c this, of p] wf grav show ?thesis by simp
qed

lemma afterMove_board:
  "board (afterMove g c p) = board (fst (makeMove g c p))"
  by (simp add: afterMove_def Let_def checkWinCondition_frame)

lemma onMessage_board:
  assumes "wf_board (board g)" "gravity (board g)"
    and "onMessage sock pid m g = Inr (g', out)"
  shows "wf_board (board g') \<and> gravity (board g')"
proof (cases m)
  case NotJson
  with assms show ?thesis by (simp add: onMessage_def)
next
  case JsonNull
  with assms show ?thesis by (simp add: onMessage_def)
next
  case (Json d)
  show ?thesis
  proof (cases "data_type d = Some MOVE \<and> data_player d = Some pid \<and>
                  currentPlayer g = pid \<and> status g = ONGOING")
    case True
    show ?thesis
    proof (cases "isValidMove g (data_column d)")
      case valid: True
      then have col: "0 \<le> data_column d" "data_column d < 7"
        by (simp_all add: isValidMove_def split: if_splits)
      from onMessage_accepted(1)[of d pid g sock] True valid assms(3) Json
      have "g' = afterMove g (data_column d) pid" by simp
      with makeMove_keeps[OF assms(1,2) col, of pid] show ?thesis
        by (simp add: afterMove_board)
    next
      case False
      with True Json assms show ?thesis by (simp add: onMessage_def)
    qed
  next
    case False
    with Json assms wf_createEmptyBoard show ?thesis
      by (auto simp: onMessage_def playerInitiatedReset_def broadcastChatMessage_def
            Let_def split: if_splits option.splits)
  qed
qed

lemma onConnection_board:
  "onConnection sock g = (g', pid, out) \<Longrightarrow> board g' = board g"
  by (auto simp: onConnection_def Let_def split: if_splits)

lemma handlePlayerDisconnect_board:
  assumes "handlePlayerDisconnect (Some pid) g = (g', out)"
  shows "board g' = board g \<or> board g' = createEmptyBoard"
proof (cases "findIndex (\<lambda>p. id' p = pid) (players g)")
  case None
  with assms show ?thesis by (simp add: handlePlayerDisconnect_def)
next
  case (Some i)
  show ?thesis
    using assms unfolding handlePlayerDisconnect_found[OF Some refl]
    by (auto simp: initial_game_def split: if_splits)
qed

lemma step_board_inv:
  assumes "board_inv s" "step ev s = Inr (s', out)"
  shows "board_inv s'"
proof (cases ev)
  case Connection
  obtain g' pid out' where c: "onConnection (length (srv_socks s)) (srv_game s) = (g', pid, out')"
    by (metis prod_cases3)
  with assms(2) Connection have "srv_game s' = g'" by (auto simp: step_def)
  with onConnection_board[OF c] assms(1) show ?thesis by (simp add: board_inv_def)
next
  case (Message sock m)
  show ?thesis
  proof (cases "sock < length (srv_socks s) \<and> srv_socks s ! sock \<noteq> None")
    case True
    then obtain pid where pid: "srv_socks s ! sock = Some pid" by blast
    with assms(2) Message True obtain g' where
      g': "onMessage sock pid m (srv_game s) = Inr (g', out)" "srv_game s' = g'"
      by (auto simp: step_def split: sum.splits)
    with onMessage_board[OF _ _ g'(1)] assms(1) show ?thesis by (simp add: board_inv_def)
  next
    case False
    with assms Message show ?thesis by (auto simp: step_def split: if_splits)
  qed
next
  case (Close sock)
  show ?thesis
  proof (cases "sock < length (srv_socks s) \<and> srv_socks s ! sock \<noteq> None")
    case True
    then obtain pid where pid: "srv_socks s ! sock = Some pid" by blast
    with assms(2) Close True obtain g' where
      g': "handlePlayerDisconnect (Some pid) (srv_game s) = (g', out)" "srv_game s' = g'"
      by (auto simp: step_def split: prod.splits)
    with handlePlayerDisconnect_board[OF g'(1)] assms(1) wf_createEmptyBoard show ?thesis
      by (auto simp: board_inv_def)
  next
    case False
    with assms Close show ?thesis by (auto simp: step_def split: if_splits)
  qed
qed

lemma reachable_board:
  assumes "reachable s"
  shows "wf_board (board (srv_game s)) \<and> gravity (board (srv_game s))"
proof -
  from assms obtain evs where evs: "run initial_server evs = Inr s"
    unfolding reachable_def by blast
  have "board_inv initial_server"
    using wf_createEmptyBoard by (simp add: board_inv_def initial_server_def initial_game_def)
  from run_invariant[of board_inv, OF step_board_inv this evs] show ?thesis
    by (simp add: board_inv_def)
qed

section \<open>The boards the server checks\<close>

lemma hasRun_createEmptyBoard: "\<not> hasRun createEmptyBoard p"
  unfolding hasRun_exec by (simp add: pieceAt_def createEmptyBoard_cells)

text \<open>A piece of \<open>m\<close> put on the board gives no other identity a piece, hence no run.\<close>

lemma nth_update_total:
  "xs[i := x] ! j = (if i = j \<and> i < length xs then x else xs ! j)"
  by (cases "i < length xs") (auto simp: nth_list_update list_update_beyond)

lemma pieceAt_update:
  assumes "q \<noteq> m" "pieceAt (b[r0 := (b ! r0)[c0 := Some m]]) r c q"
  shows "pieceAt b r c q"
  using assms by (auto simp: pieceAt_def nth_update_total split: if_splits)

lemma hasRun_update:
  assumes "q \<noteq> m" "hasRun (b[r0 := (b ! r0)[c0 := Some m]]) q"
  shows "hasRun b q"
proof -
  from assms(2) obtain r c dr dc n where d: "(dr, dc) \<in> lineSteps" and n: "4 \<le> n"
    and cells: "\<forall>i<n. pieceAt (b[r0 := (b ! r0)[c0 := Some m]]) (r + dr * int i) (c + dc * int i) q"
    unfolding hasRun_def by blast
  from cells pieceAt_update[OF assms(1)]
  have "\<forall>i<n. pieceAt b (r + dr * int i) (c + dc * int i) q" by blast
  with d n show ?thesis unfolding hasRun_def by blast
qed

lemma makeMove_board:
  assumes wf: "wf_board (board g)" and c: "0 \<le> c" "c < 7"
  shows "board (fst (makeMove g c m)) = board g \<or>
         (\<exists>r0. board (fst (makeMove g c m)) = (board g)[r0 := (board g ! r0)[nat c := Some m]])"
proof (cases "\<exists>r<6. board g ! r ! nat c = None")
  case True
  from greatest_below[OF this] obtain r0 where
    r0: "r0 < 6" "board g ! r0 ! nat c = None"
    and below: "\<forall>r. r0 < r \<and> r < 6 \<longrightarrow> board g ! r ! nat c \<noteq> None"
    by blast
  from makeMove_lowest[OF wf c r0 below, of m] show ?thesis by auto
next
  case False
  then have "\<forall>r<6. board g ! r ! nat c \<noteq> None" by simp
  from makeMove_full[OF wf c this, of m] show ?thesis by simp
qed

lemma makeMove_only_mover:
  assumes wf: "wf_board (board g)" and c: "0 \<le> c" "c < 7"
    and free: "\<forall>p. \<not> hasRun (board g) p" and q: "q \<noteq> m"
  shows "\<not> hasRun (board (fst (makeMove g c m))) q"
proof
  assume h: "hasRun (board (fst (makeMove g c m))) q"
  from makeMove_board[OF wf c, of m] show False
  proof
    assume "board (fst (makeMove g c m)) = board g"
    with h free show False by simp
  next
    assume "\<exists>r0. board (fst (makeMove g c m)) = (board g)[r0 := (board g ! r0)[nat c := Some m]]"
    then obtain r0 where "board (fst (makeMove g c m)) = (board g)[r0 := (board g ! r0)[nat c := Some m]]"
      by blast
    with h hasRun_update[OF q, of "board g" r0 "nat c"] free show False by simp
  qed
qed

lemma isValidMove_range: "isValidMove g c \<Longrightarrow> 0 \<le> c \<and> c < 7"
  by (simp add: isValidMove_def split: if_splits)

text \<open>The game after an accepted move is still to be played only if the board has no run.\<close>

lemma afterMove_run_free:
  assumes wf: "wf_board (board g)" and grav: "gravity (board g)"
    and on: "status g = ONGOING" and v: "isValidMove g c"
  shows "wf_board (board (afterMove g c m)) \<and> gravity (board (afterMove g c m)) \<and>
         (status (afterMove g c m) = WAITING \<or> status (afterMove g c m) = ONGOING \<longrightarrow>
            (\<forall>p. \<not> hasRun (board (afterMove g c m)) p))"
proof -
  let ?g1 = "fst (makeMove g c m)"
  let ?g2 = "checkWinCondition ?g1"
  from isValidMove_range[OF v] have c: "0 \<le> c" "c < 7" by simp_all
  from makeMove_keeps[OF wf grav c, of m]
  have wf1: "wf_board (board ?g1)" and grav1: "gravity (board ?g1)" by simp_all
  have on1: "status ?g1 = ONGOING" using on by (simp add: makeMove_frame)
  from checkWinCondition_outcome[OF wf1, of m] on1
  have win: "(status ?g2 = WIN) = (\<exists>q. hasRun (board ?g1) q)" by blast
  have b: "board (afterMove g c m) = board ?g1" by (rule afterMove_board)
  have st: "status (afterMove g c m) = status ?g2"
    by (simp add: afterMove_def Let_def)
  have "\<forall>p. \<not> hasRun (board ?g1) p"
    if "status ?g2 = WAITING \<or> status ?g2 = ONGOING"
    using that win by auto
  with wf1 grav1 b st show ?thesis by simp
qed

lemma onMessage_cases:
  assumes "onMessage sock pid m g = Inr (g', out)"
  shows "g' = g \<or>
         (\<exists>c. status g = ONGOING \<and> isValidMove g c \<and> g' = afterMove g c pid) \<or>
         board g' = createEmptyBoard"
proof (cases m)
  case NotJson
  with assms show ?thesis by (simp add: onMessage_def)
next
  case JsonNull
  with assms show ?thesis by (simp add: onMessage_def)
next
  case (Json d)
  show ?thesis
  proof (cases "data_type d = Some MOVE \<and> data_player d = Some pid \<and>
                  currentPlayer g = pid \<and> status g = ONGOING")
    case True
    show ?thesis
    proof (cases "isValidMove g (data_column d)")
      case valid: True
      from onMessage_accepted(1)[of d pid g sock] True valid assms Json
      have "g' = afterMove g (data_column d) pid" by simp
      with True valid show ?thesis by blast
    next
      case False
      with True Json assms show ?thesis by (simp add: onMessage_def)
    qed
  next
    case False
    with Json assms show ?thesis
      by (auto simp: onMessage_def playerInitiatedReset_def broadcastChatMessage_def
            Let_def split: if_splits option.splits)
  qed
qed

lemma onConnection_status:
  "onConnection sock g = (g', pid, out) \<Longrightarrow>
   board g' = board g \<and> (status g' = status g \<or> (status g = WAITING \<and> status g' = ONGOING))"
  by (auto simp: onConnection_def Let_def split: if_splits)

lemma handlePlayerDisconnect_status:
  assumes "handlePlayerDisconnect (Some pid) g = (g', out)"
  shows "(board g' = board g \<and> (status g' = status g \<or> status g' = ABANDONED)) \<or>
         g' = initial_game"
proof (cases "findIndex (\<lambda>p. id' p = pid) (players g)")
  case None
  with assms show ?thesis by (simp add: handlePlayerDisconnect_def)
next
  case (Some i)
  show ?thesis
    using assms unfolding handlePlayerDisconnect_found[OF Some refl]
    by (auto split: if_splits)
qed

lemma play_inv_empty:
  "board g = createEmptyBoard \<Longrightarrow>
   wf_board (board g) \<and> gravity (board g) \<and> (\<forall>p. \<not> hasRun (board g) p)"
  using wf_createEmptyBoard hasRun_createEmptyBoard by simp

lemma step_play_inv:
  assumes "play_inv s" "step ev s = Inr (s', out)"
  shows "play_inv s'"
proof (cases ev)
  case Connection
  obtain g' pid out' where c: "onConnection (length (srv_socks s)) (srv_game s) = (g', pid, out')"
    by (metis prod_cases3)
  with assms(2) Connection have "srv_game s' = g'" by (auto simp: step_def)
  with onConnection_status[OF c] assms(1) show ?thesis by (auto simp: play_inv_def)
next
  case (Message sock m)
  show ?thesis
  proof (cases "sock < length (srv_socks s) \<and> srv_socks s ! sock \<noteq> None")
    case True
    then obtain pid where pid: "srv_socks s ! sock = Some pid" by blast
    with assms(2) Message True obtain g' where
      g': "onMessage sock pid m (srv_game s) = Inr (g', out)" "srv_game s' = g'"
      by (auto simp: step_def split: sum.splits)
    from onMessage_cases[OF g'(1)] consider
      "g' = srv_game s"
      | c where "status (srv_game s) = ONGOING" "isValidMove (srv_game s) c"
          "g' = afterMove (srv_game s) c pid"
      | "board g' = createEmptyBoard"
      by blast
    then show ?thesis
    proof cases
      case 1
      with g'(2) assms(1) show ?thesis by (simp add: play_inv_def)
    next
      case 2
      from assms(1) have "wf_board (board (srv_game s))" "gravity (board (srv_game s))"
        by (simp_all add: play_inv_def)
      from afterMove_run_free[OF this 2(1,2), of pid] 2(3) g'(2) show ?thesis
        by (simp add: play_inv_def)
    next
      case 3
      from play_inv_empty[OF 3] g'(2) show ?thesis by (simp add: play_inv_def)
    qed
  next
    case False
    with assms Message show ?thesis by (auto simp: step_def split: if_splits)
  qed
next
  case (Close sock)
  show ?thesis
  proof (cases "sock < length (srv_socks s) \<and> srv_socks s ! sock \<noteq> None")
    case True
    then obtain pid where pid: "srv_socks s ! sock = Some pid" by blast
    with assms(2) Close True obtain g' where
      g': "handlePlayerDisconnect (Some pid) (srv_game s) = (g', out)" "srv_game s' = g'"
      by (auto simp: step_def split: prod.splits)
    from handlePlayerDisconnect_status[OF g'(1)] show ?thesis
    proof
      assume "board g' = board (srv_game s) \<and>
              (status g' = status (srv_game s) \<or> status g' = ABANDONED)"
      with g'(2) assms(1) show ?thesis by (auto simp: play_inv_def)
    next
      assume "g' = initial_game"
      then have "board g' = createEmptyBoard" by (simp add: initial_game_def)
      from play_inv_empty[OF this] g'(2) show ?thesis by (simp add: play_inv_def)
    qed
  next
    case False
    with assms Close show ?thesis by (auto simp: step_def split: if_splits)
  qed
qed

lemma reachable_play_inv:
  assumes "reachable s"
  shows "play_inv s"
proof -
  from assms obtain evs where evs: "run initial_server evs = Inr s"
    unfolding reachable_def by blast
  have "board (srv_game initial_server) = createEmptyBoard"
    by (simp add: initial_server_def initial_game_def)
  from play_inv_empty[OF this] have "play_inv initial_server"
    by (simp add: play_inv_def)
  from run_invariant[of play_inv, OF step_play_inv this evs] show ?thesis .
qed

text \<open>
  Claim C1. \<open>checkWinCondition\<close> is called at one place: in a session whose status is
  ONGOING, on the board in which \<open>makeMove\<close> has just put a piece in a column that
  \<open>isValidMove\<close> admits. At every such call in a reachable session the board is 6 by 7
  and the result is WIN for identity \<open>p\<close> exactly when \<open>p\<close> has a contiguous run of at
  least 4 of its pieces along a row, a column or a diagonal; it is DRAW, with no winner,
  exactly when every cell is occupied and neither identity has such a run; and in every
  other case the game is returned as it was, ONGOING, status and winner unchanged.
\<close>

theorem checkWinCondition_at_every_call:
  assumes reach: "reachable s" and on: "status (srv_game s) = ONGOING"
    and valid: "isValidMove (srv_game s) c"
    and g1: "g1 = fst (makeMove (srv_game s) c m)"
  shows
    "wf_board (board g1) \<and> status g1 = ONGOING \<and>
     ((status (checkWinCondition g1) = WIN \<and> winner (checkWinCondition g1) = Some p) =
        hasRun (board g1) p) \<and>
     (hasRun (board g1) p \<longrightarrow> checkWinCondition g1 = g1\<lparr>status := WIN, winner := Some p\<rparr>) \<and>
     ((status (checkWinCondition g1) = WIN) = (\<exists>q. hasRun (board g1) q)) \<and>
     ((status (checkWinCondition g1) = DRAW) =
        (boardFull (board g1) \<and> (\<forall>q. \<not> hasRun (board g1) q))) \<and>
     (status (checkWinCondition g1) = DRAW \<longrightarrow>
        checkWinCondition g1 = g1\<lparr>status := DRAW, winner := None\<rparr>) \<and>
     (status (checkWinCondition g1) \<noteq> WIN \<and> status (checkWinCondition g1) \<noteq> DRAW \<longrightarrow>
        checkWinCondition g1 = g1)"
proof -
  let ?g = "srv_game s"
  let ?g2 = "checkWinCondition g1"
  from reachable_play_inv[OF reach] on
  have wf: "wf_board (board ?g)" and grav: "gravity (board ?g)"
    and free: "\<forall>q. \<not> hasRun (board ?g) q"
    by (simp_all add: play_inv_def)
  from isValidMove_range[OF valid] have c: "0 \<le> c" "c < 7" by simp_all
  from makeMove_keeps[OF wf grav c, of m] have wf1: "wf_board (board g1)"
    by (simp add: g1)
  have on1: "status g1 = ONGOING" using on by (simp add: g1 makeMove_frame)
  have others: "\<not> hasRun (board g1) q" if "q \<noteq> m" for q
    using makeMove_only_mover[OF wf c free that] by (simp add: g1)
  note outcome = checkWinCondition_outcome[OF wf1]
  have won: "?g2 = g1\<lparr>status := WIN, winner := Some p\<rparr>" if h: "hasRun (board g1) p"
  proof -
    from h others have "p = m" by blast
    with others have "\<forall>q. q \<noteq> p \<longrightarrow> \<not> hasRun (board g1) q" by simp
    with h outcome[of p] show ?thesis by blast
  qed
  have win_iff: "(status ?g2 = WIN \<and> winner ?g2 = Some p) = hasRun (board g1) p"
  proof
    assume a: "status ?g2 = WIN \<and> winner ?g2 = Some p"
    with outcome[of p] on1 obtain q where "winner ?g2 = Some q" "hasRun (board g1) q"
      by blast
    with a show "hasRun (board g1) p" by simp
  next
    assume "hasRun (board g1) p"
    from won[OF this] show "status ?g2 = WIN \<and> winner ?g2 = Some p" by simp
  qed
  from outcome[of p] on1
  have some_iff: "(status ?g2 = WIN) = (\<exists>q. hasRun (board g1) q)" by blast
  from outcome[of p] on1
  have draw_iff: "(status ?g2 = DRAW) = (boardFull (board g1) \<and> (\<forall>q. \<not> hasRun (board g1) q))"
    by blast
  have draw: "?g2 = g1\<lparr>status := DRAW, winner := None\<rparr>" if "status ?g2 = DRAW"
    using that draw_iff outcome[of p] by blast
  have same: "?g2 = g1" if n: "status ?g2 \<noteq> WIN \<and> status ?g2 \<noteq> DRAW"
  proof -
    from outcome[of p] on1 n have "\<forall>q. \<not> hasRun (board g1) q" by blast
    moreover from draw_iff n this have "\<not> boardFull (board g1)" by blast
    ultimately show ?thesis using outcome[of p] by blast
  qed
  from wf1 on1 win_iff won some_iff draw_iff draw same show ?thesis by blast
qed

lemma makeMove_first: "fst (makeMove two_player_game 3 PLAYER1) =
    first_move_game\<lparr>currentPlayer := PLAYER1\<rparr>"
  by code_simp

lemma makeMove_winning: "fst (makeMove almost_won_game 3 PLAYER1) =
    almost_won_game\<lparr>board := vertical_win_board\<rparr>"
  by code_simp

lemma makeMove_last: "fst (makeMove almost_drawn_game 6 PLAYER2) =
    almost_drawn_game\<lparr>board := draw_board\<rparr>"
  by code_simp

theorem checkWinCondition_at_every_call_witness:
  "reachable \<lparr>srv_game = two_player_game, srv_socks = [Some PLAYER1, Some PLAYER2]\<rparr> \<and>
   status two_player_game = ONGOING \<and> isValidMove two_player_game 3 \<and>
   \<not> hasRun (board first_move_game) PLAYER1 \<and> \<not> hasRun (board first_move_game) PLAYER2 \<and>
   \<not> boardFull (board first_move_game) \<and>
   checkWinCondition (fst (makeMove two_player_game 3 PLAYER1)) =
     fst (makeMove two_player_game 3 PLAYER1) \<and>
   reachable \<lparr>srv_game = almost_won_game, srv_socks = [Some PLAYER1, Some PLAYER2]\<rparr> \<and>
   status almost_won_game = ONGOING \<and> isValidMove almost_won_game 3 \<and>
   hasRun vertical_win_board PLAYER1 \<and>
   checkWinCondition (fst (makeMove almost_won_game 3 PLAYER1)) = won_game \<and>
   status won_game = WIN \<and> winner won_game = Some PLAYER1 \<and>
   reachable \<lparr>srv_game = almost_drawn_game, srv_socks = [Some PLAYER1, Some PLAYER2]\<rparr> \<and>
   status almost_drawn_game = ONGOING \<and> isValidMove almost_drawn_game 6 \<and>
   boardFull draw_board \<and> \<not> hasRun draw_board PLAYER1 \<and> \<not> hasRun draw_board PLAYER2 \<and>
   checkWinCondition (fst (makeMove almost_drawn_game 6 PLAYER2)) =
     almost_drawn_game\<lparr>board := draw_board, status := DRAW, winner := None\<rparr>"
proof -
  let ?socks = "[Some PLAYER1, Some PLAYER2]"
  \<comment> \<open>a first move: the game goes on\<close>
  have "run initial_server [Connection, Connection] =
          Inr \<lparr>srv_game = two_player_game, srv_socks = ?socks\<rparr>"
    by code_simp
  then have r1: "reachable \<lparr>srv_game = two_player_game, srv_socks = ?socks\<rparr>"
    unfolding reachable_def by blast
  have o1: "status two_player_game = ONGOING" by (simp add: two_player_game_def)
  have v1: "isValidMove two_player_game 3" by code_simp
  have b1: "board (first_move_game\<lparr>currentPlayer := PLAYER1\<rparr>) = board first_move_game"
    by simp
  have n1: "\<forall>q. \<not> hasRun (board first_move_game) q"
    unfolding hasRun_exec by (simp add: pieceAt_def first_move_game_def)
  have wff: "wf_board (board first_move_game)"
    by (simp add: wf_board_def first_move_game_def)
  have nf1: "\<not> boardFull (board first_move_game)"
    unfolding every_cell[OF wff, symmetric] by (simp add: first_move_game_def)
  from checkWinCondition_at_every_call[where s = "\<lparr>srv_game = two_player_game, srv_socks = ?socks\<rparr>"
      and c = 3 and m = PLAYER1 and p = PLAYER1
      and ?g1.0 = "fst (makeMove two_player_game 3 PLAYER1)", OF r1] o1 v1 n1 nf1
  have e1: "checkWinCondition (fst (makeMove two_player_game 3 PLAYER1)) =
     fst (makeMove two_player_game 3 PLAYER1)"
    by (simp add: makeMove_first)
  \<comment> \<open>a winning move\<close>
  have "run initial_server (Connection # Connection # turns 0 [3, 4, 3, 4, 3, 4]) =
          Inr \<lparr>srv_game = almost_won_game, srv_socks = ?socks\<rparr>"
    by code_simp
  then have r2: "reachable \<lparr>srv_game = almost_won_game, srv_socks = ?socks\<rparr>"
    unfolding reachable_def by blast
  have o2: "status almost_won_game = ONGOING"
    by (simp add: almost_won_game_def two_player_game_def)
  have v2: "isValidMove almost_won_game 3" by code_simp
  have h2: "hasRun vertical_win_board PLAYER1"
    unfolding hasRun_exec by (simp add: pieceAt_def vertical_win_board_def)
  let ?x = "almost_won_game\<lparr>board := vertical_win_board\<rparr>"
  have hx: "hasRun (board ?x) PLAYER1" using h2 by simp
  have p2: "status (srv_game \<lparr>srv_game = almost_won_game, srv_socks = ?socks\<rparr>) = ONGOING"
    "isValidMove (srv_game \<lparr>srv_game = almost_won_game, srv_socks = ?socks\<rparr>) 3"
    "?x = fst (makeMove (srv_game \<lparr>srv_game = almost_won_game, srv_socks = ?socks\<rparr>) 3 PLAYER1)"
    using o2 v2 by (simp_all add: makeMove_winning)
  from checkWinCondition_at_every_call[OF r2 p2, of PLAYER1] hx
  have "checkWinCondition ?x = ?x\<lparr>status := WIN, winner := Some PLAYER1\<rparr>"
    by blast
  moreover have "?x\<lparr>status := WIN, winner := Some PLAYER1\<rparr> = won_game"
    by (simp add: won_game_def almost_won_game_def)
  ultimately have e2: "checkWinCondition (fst (makeMove almost_won_game 3 PLAYER1)) = won_game"
    by (simp only: makeMove_winning)
  have w2: "status won_game = WIN" "winner won_game = Some PLAYER1"
    by (simp_all add: won_game_def)
  \<comment> \<open>the last move of a game that fills the board\<close>
  have "run initial_server
          (Connection # Connection #
             turns 0 (draw_columns @ draw_columns @ take 13 draw_columns)) =
          Inr \<lparr>srv_game = almost_drawn_game, srv_socks = ?socks\<rparr>"
    by code_simp
  then have r3: "reachable \<lparr>srv_game = almost_drawn_game, srv_socks = ?socks\<rparr>"
    unfolding reachable_def by blast
  have o3: "status almost_drawn_game = ONGOING"
    by (simp add: almost_drawn_game_def two_player_game_def)
  have v3: "isValidMove almost_drawn_game 6" by code_simp
  have wfd: "wf_board draw_board" by (simp add: wf_board_def draw_board_def)
  have f3: "boardFull draw_board"
    unfolding every_cell[OF wfd, symmetric] by (simp add: draw_board_def)
  have n3: "\<forall>q. \<not> hasRun draw_board q"
    unfolding hasRun_exec by (simp add: pieceAt_def draw_board_def)
  let ?y = "almost_drawn_game\<lparr>board := draw_board\<rparr>"
  have fy: "boardFull (board ?y) \<and> (\<forall>q. \<not> hasRun (board ?y) q)" using f3 n3 by simp
  have p3: "status (srv_game \<lparr>srv_game = almost_drawn_game, srv_socks = ?socks\<rparr>) = ONGOING"
    "isValidMove (srv_game \<lparr>srv_game = almost_drawn_game, srv_socks = ?socks\<rparr>) 6"
    "?y = fst (makeMove (srv_game \<lparr>srv_game = almost_drawn_game, srv_socks = ?socks\<rparr>) 6 PLAYER2)"
    using o3 v3 by (simp_all add: makeMove_last)
  from checkWinCondition_at_every_call[OF r3 p3, of PLAYER2] fy
  have "checkWinCondition ?y = ?y\<lparr>status := DRAW, winner := None\<rparr>"
    by blast
  then have e3: "checkWinCondition (fst (makeMove almost_drawn_game 6 PLAYER2)) =
     almost_drawn_game\<lparr>board := draw_board, status := DRAW, winner := None\<rparr>"
    by (simp only: makeMove_last)
  from r1 o1 v1 n1 nf1 e1 r2 o2 v2 h2 e2 w2 r3 o3 v3 f3 n3 e3 show ?thesis by simp
qed

end
